theory Spec2Isabelle
  imports Complex_Main "HOL-Library.Word"
begin

section \<open>Values of type double\<close>

text \<open>
  The kernels of \<^verbatim>\<open>_wham.c\<close> and the driver of \<^verbatim>\<open>mbar_direct.pyx\<close> compute on
  IEEE doubles (\<^verbatim>\<open>double\<close>, \<^verbatim>\<open>numpy.float64\<close>). A double is modelled as an
  extended real: a finite real number, one of the two infinities, or NaN. The
  operations follow IEEE 754 on the special values and are exact on finite
  operands: rounding, overflow to an infinity and the sign of zero are not
  modelled (a zero divisor counts as \<open>+0\<close>; the only divisors of the source are
  absolute values).
\<close>

datatype fval = NaN | NInf | Fin real | PInf

fun fneg :: "fval \<Rightarrow> fval" where
  "fneg NaN = NaN"
| "fneg NInf = PInf"
| "fneg (Fin x) = Fin (- x)"
| "fneg PInf = NInf"

fun fadd :: "fval \<Rightarrow> fval \<Rightarrow> fval" where
  "fadd (Fin x) (Fin y) = Fin (x + y)"
| "fadd NaN _ = NaN"
| "fadd _ NaN = NaN"
| "fadd PInf NInf = NaN"
| "fadd NInf PInf = NaN"
| "fadd PInf _ = PInf"
| "fadd _ PInf = PInf"
| "fadd NInf _ = NInf"
| "fadd _ NInf = NInf"

definition fsub :: "fval \<Rightarrow> fval \<Rightarrow> fval" where
  "fsub a b = fadd a (fneg b)"

fun fmul :: "fval \<Rightarrow> fval \<Rightarrow> fval" where
  "fmul (Fin x) (Fin y) = Fin (x * y)"
| "fmul NaN _ = NaN"
| "fmul _ NaN = NaN"
| "fmul (Fin x) PInf = (if x = 0 then NaN else if 0 < x then PInf else NInf)"
| "fmul (Fin x) NInf = (if x = 0 then NaN else if 0 < x then NInf else PInf)"
| "fmul PInf (Fin y) = (if y = 0 then NaN else if 0 < y then PInf else NInf)"
| "fmul NInf (Fin y) = (if y = 0 then NaN else if 0 < y then NInf else PInf)"
| "fmul PInf PInf = PInf"
| "fmul PInf NInf = NInf"
| "fmul NInf PInf = NInf"
| "fmul NInf NInf = PInf"

fun fdiv :: "fval \<Rightarrow> fval \<Rightarrow> fval" where
  "fdiv (Fin x) (Fin y) =
     (if y = 0 then (if x = 0 then NaN else if 0 < x then PInf else NInf)
      else Fin (x / y))"
| "fdiv NaN _ = NaN"
| "fdiv _ NaN = NaN"
| "fdiv (Fin x) _ = Fin 0"
| "fdiv PInf (Fin y) = (if 0 \<le> y then PInf else NInf)"
| "fdiv NInf (Fin y) = (if 0 \<le> y then NInf else PInf)"
| "fdiv _ _ = NaN"

fun fabs :: "fval \<Rightarrow> fval" where
  "fabs NaN = NaN"
| "fabs NInf = PInf"
| "fabs (Fin x) = Fin \<bar>x\<bar>"
| "fabs PInf = PInf"

fun fexp :: "fval \<Rightarrow> fval" where
  "fexp NaN = NaN"
| "fexp NInf = Fin 0"
| "fexp (Fin x) = Fin (exp x)"
| "fexp PInf = PInf"

fun flog :: "fval \<Rightarrow> fval" where
  "flog NaN = NaN"
| "flog NInf = NaN"
| "flog (Fin x) = (if x < 0 then NaN else if x = 0 then NInf else Fin (ln x))"
| "flog PInf = PInf"

text \<open>Comparisons: every comparison with NaN is false.\<close>

fun flt :: "fval \<Rightarrow> fval \<Rightarrow> bool" where
  "flt (Fin x) (Fin y) = (x < y)"
| "flt NaN _ = False"
| "flt _ NaN = False"
| "flt NInf NInf = False"
| "flt NInf _ = True"
| "flt _ NInf = False"
| "flt PInf _ = False"
| "flt (Fin x) PInf = True"

text \<open>The sum of a sequence, accumulated from \<open>0.0\<close> in index order.\<close>

definition fsum :: "fval list \<Rightarrow> fval" where
  "fsum v = foldl fadd (Fin 0) v"

section \<open>The log-sum-exp primitive\<close>

text \<open>
  Modelled from the spec: \<^verbatim>\<open>rc_logsumexp\<close> is declared in \<^verbatim>\<open>../lse/_lse.h\<close>,
  which is not among the sources. The specification (4.1) gives its contract:
  for a sequence of N values, possibly with negative infinity among them, it
  returns log(sum(exp(values))), computed by subtracting the maximum finite value
  before exponentiating and adding it back; when all entries are negative
  infinity the result is negative infinity.
\<close>

fun finite_values :: "fval list \<Rightarrow> real list" where
  "finite_values [] = []"
| "finite_values (Fin x # v) = x # finite_values v"
| "finite_values (_ # v) = finite_values v"

definition logsumexp :: "fval list \<Rightarrow> fval" where
  "logsumexp v =
     (if list_all (\<lambda>x. x = NInf) v then NInf
      else case finite_values v of
             [] \<Rightarrow> flog (fsum (map fexp v))
           | x # xs \<Rightarrow>
               (let vmax = Fin (foldl max x xs)
                in fadd vmax (flog (fsum (map (\<lambda>y. fexp (fsub y vmax)) v)))))"

section \<open>The WHAM kernels of \<^verbatim>\<open>_wham.c\<close>\<close>

text \<open>
  The kernels work on caller-supplied arrays of doubles through pointers. The
  memory is a map from addresses to doubles, with addresses counted in doubles;
  a pointer is the address of an array's first element, and \<open>p + i\<close> is the
  address of \<^verbatim>\<open>p[i]\<close>. The \<^verbatim>\<open>int\<close> extents and loop counters are natural numbers
  (an array extent is not negative, and a loop over a negative extent would run
  no iteration, as for 0); index arithmetic is taken within the range of
  \<^verbatim>\<open>int\<close>.
\<close>

type_synonym dmem = "nat \<Rightarrow> fval"

definition read_block :: "dmem \<Rightarrow> nat \<Rightarrow> nat \<Rightarrow> fval list" where
  "read_block m p n = map (\<lambda>i. m (p + i)) [0..<n]"

definition rc_logsumexp :: "dmem \<Rightarrow> nat \<Rightarrow> nat \<Rightarrow> fval" where
  "rc_logsumexp m array n = logsumexp (read_block m array n)"

definition rc_wham_fi ::
  "nat \<Rightarrow> nat \<Rightarrow> nat \<Rightarrow> nat \<Rightarrow> nat \<Rightarrow> nat \<Rightarrow> nat \<Rightarrow> nat \<Rightarrow> dmem \<Rightarrow> dmem" where
  "rc_wham_fi log_N_K log_N_i f_K b_K_i n_therm_states n_markov_states scratch f_i m0 =
     fold (\<lambda>i m.
        let m1 = fold (\<lambda>K m. m(scratch + K :=
                   fadd (fsub (m (log_N_K + K)) (m (b_K_i + (K * n_markov_states + i))))
                        (m (f_K + K))))
                 [0..<n_therm_states] m
        in m1(f_i + i := fsub (rc_logsumexp m1 scratch n_therm_states) (m1 (log_N_i + i))))
       [0..<n_markov_states] m0"

definition rc_wham_fk ::
  "nat \<Rightarrow> nat \<Rightarrow> nat \<Rightarrow> nat \<Rightarrow> nat \<Rightarrow> nat \<Rightarrow> dmem \<Rightarrow> dmem" where
  "rc_wham_fk f_i b_K_i n_therm_states n_markov_states scratch f_K m0 =
     fold (\<lambda>K m.
        let KM = K * n_markov_states;
            m1 = fold (\<lambda>i m. m(scratch + i := fneg (fadd (m (b_K_i + (KM + i))) (m (f_i + i)))))
                 [0..<n_markov_states] m
        in m1(f_K + K := fneg (rc_logsumexp m1 scratch n_markov_states)))
       [0..<n_therm_states] m0"

definition rc_wham_normalize :: "nat \<Rightarrow> nat \<Rightarrow> nat \<Rightarrow> dmem \<Rightarrow> dmem" where
  "rc_wham_normalize f_i n_markov_states scratch m0 =
     (let m1 = fold (\<lambda>i m. m(scratch + i := fneg (m (f_i + i)))) [0..<n_markov_states] m0;
          shift = rc_logsumexp m1 scratch n_markov_states
      in fold (\<lambda>i m. m(f_i + i := fadd (m (f_i + i)) shift)) [0..<n_markov_states] m1)"

text \<open>Two arrays \<open>p[0..n)\<close> and \<open>q[0..k)\<close> that share no element.\<close>

definition apart :: "nat \<Rightarrow> nat \<Rightarrow> nat \<Rightarrow> nat \<Rightarrow> bool" where
  "apart p n q k = (n = 0 \<or> k = 0 \<or> p + n \<le> q \<or> q + k \<le> p)"

text \<open>The term of \<^verbatim>\<open>rc_wham_fk\<close> for the indices \<open>K\<close> and \<open>i\<close>, read from a memory.\<close>

definition fk_term :: "nat \<Rightarrow> nat \<Rightarrow> nat \<Rightarrow> dmem \<Rightarrow> nat \<Rightarrow> nat \<Rightarrow> fval" where
  "fk_term f_i b_K_i M m K i = fneg (fadd (m (b_K_i + (K * M + i))) (m (f_i + i)))"

text \<open>The term of \<^verbatim>\<open>rc_wham_fi\<close> for the indices \<open>i\<close> and \<open>K\<close>, read from a memory.\<close>

definition fi_term :: "nat \<Rightarrow> nat \<Rightarrow> nat \<Rightarrow> nat \<Rightarrow> dmem \<Rightarrow> nat \<Rightarrow> nat \<Rightarrow> fval" where
  "fi_term log_N_K f_K b_K_i M m i K =
     fadd (fsub (m (log_N_K + K)) (m (b_K_i + (K * M + i)))) (m (f_K + K))"

text \<open>A memory whose array \<open>p[0..length vs)\<close> holds other contents \<open>vs\<close>.\<close>

definition overwrite :: "dmem \<Rightarrow> nat \<Rightarrow> fval list \<Rightarrow> dmem" where
  "overwrite m p vs = (\<lambda>a. if p \<le> a \<and> a < p + length vs then vs ! (a - p) else m a)"

text \<open>
  The values on which a sum of exponentials leaves the finite range: NaN and
  positive infinity; and the exponential of the other values as a real number.
\<close>

fun special :: "fval \<Rightarrow> bool" where
  "special NaN = True"
| "special PInf = True"
| "special _ = False"

fun expval :: "fval \<Rightarrow> real" where
  "expval (Fin r) = exp r"
| "expval _ = 0"

text \<open>
  A memory for \<^verbatim>\<open>rc_wham_fi\<close> with one thermodynamic and one configurational
  state: \<^verbatim>\<open>log_N_K\<close> at address 0, \<^verbatim>\<open>log_N_i\<close> at 1, \<^verbatim>\<open>f_K\<close> at 2, \<^verbatim>\<open>b_K_i\<close> at 3,
  \<^verbatim>\<open>scratch\<close> at 4 and \<^verbatim>\<open>f_i\<close> at 5; \<^verbatim>\<open>log_N_i[0]\<close> is 1 and every other cell 0.
\<close>

definition fi_example :: dmem where
  "fi_example = (\<lambda>a. if a = 1 then Fin 1 else Fin 0)"

section \<open>The driver \<^verbatim>\<open>estimate\<close> of \<^verbatim>\<open>mbar_direct.pyx\<close>\<close>

subsection \<open>Arrays as objects of a store\<close>

text \<open>
  A numpy array is a mutable object that the driver, its callees and its
  caller share by reference. The store holds the arrays by kind: the
  one-dimensional integer arrays (counts and state indices), the
  one-dimensional arrays of dtype \<^verbatim>\<open>float64\<close> and the two-dimensional arrays of
  dtype \<^verbatim>\<open>float64\<close>; an array of another dtype or number of dimensions is not
  an argument of \<^verbatim>\<open>estimate\<close> in this model. A reference is the position of an
  array in the store, and a new array is appended, so that it is no array
  that was there before.

  A two-dimensional array has its shape, its elements row by row (the
  element \<open>[i, j]\<close> at the position \<open>i * shape1 + j\<close>), and its layout in memory:
  the order of its two axes by their strides (\<open>Row_major\<close> for the order of C,
  in which the first axis has the larger stride, and \<open>Column_major\<close> for the
  order of Fortran), and whether the elements lie in memory without gaps.
  The layout does not change what the elements are; it decides the layout
  of the arrays that numpy derives from the array, and it is what the typed
  buffers of \<^verbatim>\<open>update_therm_weights\<close> check.
\<close>

type_synonym ref = nat

datatype axis_order = Row_major | Column_major

record matrix =
  shape0 :: nat
  shape1 :: nat
  entries :: "fval list"
  axes :: axis_order
  contiguous :: bool

text \<open>
  The flag \<^verbatim>\<open>C_CONTIGUOUS\<close> of a two-dimensional array: an array without
  elements has it; an array with elements has it if they lie without gaps in
  the order of C, which is also the order of Fortran when an extent is 1.
\<close>

definition c_contiguous :: "matrix \<Rightarrow> bool" where
  "c_contiguous a =
     (shape0 a = 0 \<or> shape1 a = 0 \<or>
      contiguous a \<and> (axes a = Row_major \<or> shape0 a = 1 \<or> shape1 a = 1))"

record store =
  ivec :: "int list list"
  dvec :: "fval list list"
  dmat :: "matrix list"

definition new_ivec :: "int list \<Rightarrow> store \<Rightarrow> ref \<times> store" where
  "new_ivec a h = (length (ivec h), h\<lparr>ivec := ivec h @ [a]\<rparr>)"

definition new_dvec :: "fval list \<Rightarrow> store \<Rightarrow> ref \<times> store" where
  "new_dvec a h = (length (dvec h), h\<lparr>dvec := dvec h @ [a]\<rparr>)"

definition new_dmat :: "matrix \<Rightarrow> store \<Rightarrow> ref \<times> store" where
  "new_dmat a h = (length (dmat h), h\<lparr>dmat := dmat h @ [a]\<rparr>)"

text \<open>
  Code that writes through a pointer into the buffer of an array changes its
  elements and not its shape: the first elements of the buffer take the
  values written, up to the length of the buffer.
\<close>

definition write_back :: "'a list \<Rightarrow> 'a list \<Rightarrow> 'a list" where
  "write_back buf vals = take (length buf) vals @ drop (length vals) buf"

definition set_dvec :: "ref \<Rightarrow> fval list \<Rightarrow> store \<Rightarrow> store" where
  "set_dvec r vals h = h\<lparr>dvec := (dvec h)[r := write_back (dvec h ! r) vals]\<rparr>"

definition set_dmat :: "ref \<Rightarrow> fval list \<Rightarrow> store \<Rightarrow> store" where
  "set_dmat r vals h =
     h\<lparr>dmat := (dmat h)[r := (dmat h ! r)\<lparr>entries := write_back (entries (dmat h ! r)) vals\<rparr>]\<rparr>"

subsection \<open>The numpy operations of the driver\<close>

text \<open>\<^verbatim>\<open>astype(numpy.intc)\<close> on an integer: the value in 32 bits, two's complement.\<close>

definition astype_intc :: "int \<Rightarrow> int" where
  "astype_intc n = sint (word_of_int n :: 32 word)"

definition np_log_int :: "int \<Rightarrow> fval" where
  "np_log_int n = flog (Fin (real_of_int n))"

text \<open>\<^verbatim>\<open>numpy.max\<close>: NaN if an entry is NaN; a \<^verbatim>\<open>ValueError\<close> on an empty array.\<close>

definition fmax :: "fval \<Rightarrow> fval \<Rightarrow> fval" where
  "fmax a b = (if a = NaN \<or> b = NaN then NaN else if flt a b then b else a)"

fun np_max :: "fval list \<Rightarrow> fval option" where
  "np_max [] = None"
| "np_max (x # xs) = Some (foldl fmax x xs)"

fun np_max_int :: "int list \<Rightarrow> int option" where
  "np_max_int [] = None"
| "np_max_int (x # xs) = Some (foldl max x xs)"

text \<open>
  \<^verbatim>\<open>numpy.exp(-a)\<close> on a two-dimensional array: a new array of the same shape
  that holds the elements without gaps, its axes in the order in which the
  argument has them (numpy allocates the result of an elementwise operation
  in the order \<^verbatim>\<open>K\<close>).
\<close>

definition np_exp_neg :: "matrix \<Rightarrow> matrix" where
  "np_exp_neg a = a\<lparr>entries := map (\<lambda>x. fexp (fneg x)) (entries a), contiguous := True\<rparr>"

text \<open>
  The two elementwise expressions of the loop, on the new and the old weights:
  \<^verbatim>\<open>abs(therm_weights - old_therm_weights) / abs(therm_weights)\<close> (line 120) and
  \<^verbatim>\<open>abs(therm_weights - old_therm_weights) - maxerr * abs(therm_weights)\<close> (line 136).
  The two arrays have the same shape throughout: the old weights start as a
  copy of the weights, and both are only written in place.
\<close>

definition relative_change :: "fval list \<Rightarrow> fval list \<Rightarrow> fval list" where
  "relative_change w old = map2 (\<lambda>x y. fdiv (fabs (fsub x y)) (fabs x)) w old"

definition tolerance_excess :: "fval \<Rightarrow> fval list \<Rightarrow> fval list \<Rightarrow> fval list" where
  "tolerance_excess maxerr w old =
     map2 (\<lambda>x y. fsub (fabs (fsub x y)) (fmul maxerr (fabs x))) w old"

subsection \<open>The collaborators\<close>

text \<open>
  The driver calls three functions of this repository that are not among the
  sources: the C kernel \<^verbatim>\<open>_update_therm_weights\<close> (declared in
  \<^verbatim>\<open>_mbar_direct.h\<close>) and \<^verbatim>\<open>get_conf_energies\<close> and \<^verbatim>\<open>normalize\<close> of the module
  \<^verbatim>\<open>thermotools.mbar\<close>. They are parameters of the model. Each takes the
  contents of its array arguments and gives the contents it leaves in the
  arrays it writes, by the interfaces of the specification (4.2, 4.3, 6):
  the C kernel writes its scratch array and the new weights;
  \<^verbatim>\<open>get_conf_energies\<close> writes its scratch array and returns two new arrays;
  \<^verbatim>\<open>normalize\<close> writes its scratch array and shifts the three free-energy
  arrays in place.
\<close>

record mbar_services =
  c_update_therm_weights ::
    "int list \<Rightarrow> fval list \<Rightarrow> fval list \<Rightarrow> nat \<Rightarrow> nat \<Rightarrow> fval list \<Rightarrow> fval list
       \<Rightarrow> fval list \<times> fval list"
  mbar_get_conf_energies ::
    "fval list \<Rightarrow> fval list \<Rightarrow> matrix \<Rightarrow> int list \<Rightarrow> fval list \<Rightarrow> int
       \<Rightarrow> fval list \<times> matrix \<times> fval list"
  mbar_normalize ::
    "fval list \<Rightarrow> matrix \<Rightarrow> fval list \<Rightarrow> fval list \<Rightarrow> fval list \<Rightarrow> matrix
       \<Rightarrow> fval list \<times> fval list \<times> fval list \<times> fval list"

text \<open>
  The observer callback is a function of its own state and of the keyword
  arguments of the call. It returns, raises \<^verbatim>\<open>CallbackInterrupt\<close>, or raises
  another exception; it reads the arrays it is given and does not write them
  (specification, section 5).
\<close>

datatype 'e cb_outcome = Returned | CallbackInterrupt | Raised 'e

record cb_args =
  iteration_step :: nat
  cb_therm_weights :: "fval list"
  cb_old_therm_weights :: "fval list"
  cb_delta_relative_therm_weights :: "fval list"
  cb_err :: fval
  cb_maxerr :: fval
  cb_maxiter :: int

type_synonym ('c, 'e) callback = "'c \<Rightarrow> cb_args \<Rightarrow> 'e cb_outcome \<times> 'c"

datatype 'e py_error = ValueError | CallbackError 'e

subsection \<open>The wrapper \<^verbatim>\<open>update_therm_weights\<close>\<close>

text \<open>
  Lines 56 to 63, the body of the wrapper: the call of the C kernel on the
  buffers of the five arrays, with the two extents of \<^verbatim>\<open>bias_weight_sequence\<close>.
  The kernel writes the scratch array and the new weights.
\<close>

definition update_therm_weights_body ::
  "mbar_services \<Rightarrow> ref \<Rightarrow> ref \<Rightarrow> ref \<Rightarrow> ref \<Rightarrow> ref \<Rightarrow> store \<Rightarrow> store" where
  "update_therm_weights_body svc therm_state_counts therm_weights bias_weight_sequence scratch_T
       new_therm_weights h =
     (let bws = dmat h ! bias_weight_sequence;
          (scr, new) = c_update_therm_weights svc
             (ivec h ! therm_state_counts) (dvec h ! therm_weights) (entries bws)
             (shape0 bws) (shape1 bws) (dvec h ! scratch_T) (dvec h ! new_therm_weights)
      in set_dvec new_therm_weights new (set_dvec scratch_T scr h))"

text \<open>
  Lines 34 to 39: each parameter is a typed buffer,
  \<^verbatim>\<open>numpy.ndarray[t, ndim=n, mode="c"] ... not None\<close>, and Cython checks the
  arguments before the body runs; an argument that fails a check raises an
  exception, and the body is not run. For the five arrays that \<^verbatim>\<open>estimate\<close>
  passes in line 119, all of them arrays that \<^verbatim>\<open>estimate\<close> has created:

  \<^item> \<^verbatim>\<open>not None\<close> holds: a reference is an array.
  \<^item> The dtype and the number of dimensions are those of the kind of the array
    in the store, but for the dtype of the counts, which is \<^verbatim>\<open>intc\<close> (the \<^verbatim>\<open>int\<close> of
    C) since the array is the result of \<^verbatim>\<open>astype(numpy.intc)\<close> in line 101.
  \<^item> \<^verbatim>\<open>mode="c"\<close> holds for the four one-dimensional arrays: numpy has created
    them (\<^verbatim>\<open>astype\<close>, \<^verbatim>\<open>ones\<close>, \<^verbatim>\<open>exp\<close>, \<^verbatim>\<open>copy\<close>, \<^verbatim>\<open>zeros\<close>), and a one-dimensional array
    that numpy creates has no gaps.
  \<^item> \<^verbatim>\<open>mode="c"\<close> for \<^verbatim>\<open>bias_weight_sequence\<close> is the flag \<^verbatim>\<open>C_CONTIGUOUS\<close> of that
    array, which depends on the layout of the caller's \<^verbatim>\<open>bias_energy_sequence\<close>:
    for a column-major array with both extents above 1 the check fails, and
    the wrapper raises \<^verbatim>\<open>ValueError\<close>.

  The result is \<open>None\<close> when the wrapper raises \<^verbatim>\<open>ValueError\<close>; the store is then
  as it was.
\<close>

definition update_therm_weights ::
  "mbar_services \<Rightarrow> ref \<Rightarrow> ref \<Rightarrow> ref \<Rightarrow> ref \<Rightarrow> ref \<Rightarrow> store \<Rightarrow> store option" where
  "update_therm_weights svc therm_state_counts therm_weights bias_weight_sequence scratch_T
       new_therm_weights h =
     (if c_contiguous (dmat h ! bias_weight_sequence)
      then Some (update_therm_weights_body svc therm_state_counts therm_weights
                   bias_weight_sequence scratch_T new_therm_weights h)
      else None)"

subsection \<open>The loop\<close>

text \<open>
  The local variables of the loop that change, with the store and the state
  of the callback. Two fields are history variables, which the source does
  not have: the number of passes through the loop body so far, and the value
  of \<^verbatim>\<open>err\<close> of each pass.
\<close>

record 'c loop_state =
  heap :: store
  err_traj :: "fval list"
  err_count :: int
  stop :: bool
  cb_state :: 'c
  passes :: nat
  errs :: "fval list"

text \<open>
  The local variables that the driver binds once, before the loop: the two
  extents and the references of its arrays.
\<close>

record locals =
  T_dim :: nat
  M_dim :: int
  therm_state_counts_ref :: ref
  log_therm_state_counts_ref :: ref
  therm_energies_ref :: ref
  therm_weights_ref :: ref
  bias_weight_sequence_ref :: ref
  old_therm_energies_ref :: ref
  old_therm_weights_ref :: ref
  scratch_M_ref :: ref
  scratch_T_ref :: ref

text \<open>
  Lines 125 to 135: the call of the callback, if there is one, with the
  outcome of the call and the state that the callback is left in.
\<close>

definition call_callback ::
  "('c, 'e) callback option \<Rightarrow> 'c \<Rightarrow> cb_args \<Rightarrow> 'e cb_outcome \<times> 'c" where
  "call_callback callback cbs args =
     (case callback of None \<Rightarrow> (Returned, cbs) | Some cb \<Rightarrow> cb cbs args)"

text \<open>
  One pass through the body of the loop (lines 118 to 139), for the index
  \<open>m\<close>. A pass raises \<^verbatim>\<open>ValueError\<close> if the wrapper does, or if \<^verbatim>\<open>numpy.max\<close> does
  (on an array without elements), and it raises what the callback raises
  other than \<^verbatim>\<open>CallbackInterrupt\<close>.
\<close>

definition loop_body ::
  "mbar_services \<Rightarrow> ('c, 'e) callback option \<Rightarrow> int \<Rightarrow> fval \<Rightarrow> int \<Rightarrow> locals \<Rightarrow> nat
     \<Rightarrow> 'c loop_state \<Rightarrow> ('e py_error \<times> store) + 'c loop_state" where
  "loop_body svc callback maxiter maxerr err_out L m s =
     (let count = err_count s + 1
      in case update_therm_weights svc (therm_state_counts_ref L) (old_therm_weights_ref L)
                (bias_weight_sequence_ref L) (scratch_T_ref L) (therm_weights_ref L) (heap s) of
           None \<Rightarrow> Inl (ValueError, heap s)
         | Some h \<Rightarrow>
            (let w = dvec h ! therm_weights_ref L;
                 old = dvec h ! old_therm_weights_ref L;
                 delta_relative_therm_weights = relative_change w old
             in case np_max delta_relative_therm_weights of
                  None \<Rightarrow> Inl (ValueError, h)
                | Some err \<Rightarrow>
                   (let traj = (if count = err_out then err_traj s @ [err] else err_traj s);
                        count = (if count = err_out then 0 else count);
                        called = call_callback callback (cb_state s)
                           \<lparr>iteration_step = m, cb_therm_weights = w, cb_old_therm_weights = old,
                            cb_delta_relative_therm_weights = delta_relative_therm_weights,
                            cb_err = err, cb_maxerr = maxerr, cb_maxiter = maxiter\<rparr>
                    in case fst called of
                         Raised e \<Rightarrow> Inl (CallbackError e, h)
                       | _ \<Rightarrow>
                          (let stop1 = (stop s \<or> fst called = CallbackInterrupt)
                           in case np_max (tolerance_excess maxerr w old) of
                                None \<Rightarrow> Inl (ValueError, h)
                              | Some worst \<Rightarrow>
                                  Inr \<lparr>heap = (if flt worst (Fin 0) then h
                                                else h\<lparr>dvec := (dvec h)[old_therm_weights_ref L :=
                                                         write_back old w]\<rparr>),
                                       err_traj = traj, err_count = count,
                                       stop = (if flt worst (Fin 0) then True else stop1),
                                       cb_state = snd called, passes = Suc (passes s),
                                       errs = errs s @ [err]\<rparr>))))"

text \<open>
  \<^verbatim>\<open>for _m in range(maxiter)\<close> with \<^verbatim>\<open>if stop: break\<close> at the end of the body: the
  loop runs through the indices of the range in order, and leaves at the
  first pass that ends with \<open>stop\<close> set or raises.
\<close>

fun run_loop ::
  "(nat \<Rightarrow> 'c loop_state \<Rightarrow> ('e py_error \<times> store) + 'c loop_state) \<Rightarrow> nat list
     \<Rightarrow> 'c loop_state \<Rightarrow> ('e py_error \<times> store) + 'c loop_state" where
  "run_loop body [] s = Inr s"
| "run_loop body (m # ms) s =
     (case body m s of
        Inl e \<Rightarrow> Inl e
      | Inr s' \<Rightarrow> if stop s' then Inr s' else run_loop body ms s')"

text \<open>
  The passes that the loop makes: the index and the state in which each pass
  through the body starts, in order.
\<close>

fun passes_of ::
  "(nat \<Rightarrow> 'c loop_state \<Rightarrow> ('e py_error \<times> store) + 'c loop_state) \<Rightarrow> nat list
     \<Rightarrow> 'c loop_state \<Rightarrow> (nat \<times> 'c loop_state) list" where
  "passes_of body [] s = []"
| "passes_of body (m # ms) s =
     (m, s) # (case body m s of
                 Inl e \<Rightarrow> []
               | Inr s' \<Rightarrow> if stop s' then [] else passes_of body ms s')"

definition py_range :: "int \<Rightarrow> nat list" where
  "py_range n = [0..<nat n]"

text \<open>Lines 112, 113 and 116: the state in which the loop starts.\<close>

definition initial_state :: "store \<Rightarrow> 'c \<Rightarrow> 'c loop_state" where
  "initial_state h cbs =
     \<lparr>heap = h, err_traj = [], err_count = 0, stop = False, cb_state = cbs, passes = 0, errs = []\<rparr>"

subsection \<open>The function \<^verbatim>\<open>estimate\<close>\<close>

text \<open>
  What a call returns: the three arrays, by reference, the error trajectory
  (\<open>None\<close> for Python's \<^verbatim>\<open>None\<close>), the store and the state of the callback after
  the call; and, as history variables, the reference of the local array
  \<^verbatim>\<open>therm_weights\<close> and the last state of the loop.
\<close>

record 'c estimate_result =
  res_therm_energies :: ref
  res_conf_energies :: ref
  res_biased_conf_energies :: ref
  res_err_traj :: "fval list option"
  res_store :: store
  res_therm_weights :: ref
  res_loop :: "'c loop_state"

text \<open>
  Lines 100 to 116: the local arrays, allocated before the loop. The only
  exception of these lines is the \<^verbatim>\<open>ValueError\<close> of \<^verbatim>\<open>numpy.max\<close> and
  \<^verbatim>\<open>numpy.zeros\<close>: \<open>Inl h\<close> is a \<^verbatim>\<open>ValueError\<close> raised in the store \<open>h\<close>.
\<close>

definition estimate_setup ::
  "store \<Rightarrow> ref \<Rightarrow> ref \<Rightarrow> ref \<Rightarrow> ref option \<Rightarrow> store + (locals \<times> store)" where
  "estimate_setup h0 therm_state_counts bias_energy_sequence conf_state_sequence therm_energies =
     (let T = length (ivec h0 ! therm_state_counts);
          (therm_state_counts, h) = new_ivec (map astype_intc (ivec h0 ! therm_state_counts)) h0
      in case np_max_int (ivec h ! conf_state_sequence) of
           None \<Rightarrow> Inl h
         | Some c \<Rightarrow>
            (let M = 1 + c;
                 (log_therm_state_counts, h) =
                    new_dvec (map np_log_int (ivec h ! therm_state_counts)) h;
                 (therm_energies, therm_weights, h) =
                    (case therm_energies of
                       None \<Rightarrow>
                         (let (e, h) = new_dvec (replicate T (Fin 0)) h;
                              (w, h) = new_dvec (replicate T (Fin 1)) h
                          in (e, w, h))
                     | Some e \<Rightarrow>
                         (let (w, h) = new_dvec (map (\<lambda>x. fexp (fneg x)) (dvec h ! e)) h
                          in (e, w, h)));
                 bes = dmat h ! bias_energy_sequence;
                 (bias_weight_sequence, h) =
                    new_dmat (np_exp_neg bes) h;
                 (old_therm_energies, h) = new_dvec (dvec h ! therm_energies) h;
                 (old_therm_weights, h) = new_dvec (dvec h ! therm_weights) h
             in if M < 0 then Inl h
                else
                 (let (scratch_M, h) = new_dvec (replicate (nat M) (Fin 0)) h;
                      (scratch_T, h) = new_dvec (replicate T (Fin 0)) h
                  in Inr (\<lparr>T_dim = T, M_dim = M,
                          therm_state_counts_ref = therm_state_counts,
                          log_therm_state_counts_ref = log_therm_state_counts,
                          therm_energies_ref = therm_energies,
                          therm_weights_ref = therm_weights,
                          bias_weight_sequence_ref = bias_weight_sequence,
                          old_therm_energies_ref = old_therm_energies,
                          old_therm_weights_ref = old_therm_weights,
                          scratch_M_ref = scratch_M, scratch_T_ref = scratch_T\<rparr>, h))))"

text \<open>Lines 142 to 151: the free energies of the final weights, and the result.\<close>

definition estimate_finish ::
  "mbar_services \<Rightarrow> ref \<Rightarrow> ref \<Rightarrow> int \<Rightarrow> locals \<Rightarrow> 'c loop_state \<Rightarrow> 'c estimate_result" where
  "estimate_finish svc bias_energy_sequence conf_state_sequence err_out L s =
     (let h = heap s;
          (therm_energies, h) =
             new_dvec (map (\<lambda>x. fneg (flog x)) (dvec h ! therm_weights_ref L)) h;
          (ce, bce, scr) = mbar_get_conf_energies svc
             (dvec h ! log_therm_state_counts_ref L) (dvec h ! therm_energies)
             (dmat h ! bias_energy_sequence) (ivec h ! conf_state_sequence)
             (dvec h ! scratch_T_ref L) (M_dim L);
          h = set_dvec (scratch_T_ref L) scr h;
          (conf_energies, h) = new_dvec ce h;
          (biased_conf_energies, h) = new_dmat bce h;
          (scr, te, ce, bce) = mbar_normalize svc
             (dvec h ! log_therm_state_counts_ref L) (dmat h ! bias_energy_sequence)
             (dvec h ! scratch_M_ref L) (dvec h ! therm_energies)
             (dvec h ! conf_energies) (dmat h ! biased_conf_energies);
          h = set_dmat biased_conf_energies bce
               (set_dvec conf_energies ce
                 (set_dvec therm_energies te (set_dvec (scratch_M_ref L) scr h)))
      in \<lparr>res_therm_energies = therm_energies,
          res_conf_energies = conf_energies,
          res_biased_conf_energies = biased_conf_energies,
          res_err_traj = (if err_out = 0 then None else Some (err_traj s)),
          res_store = h, res_therm_weights = therm_weights_ref L,
          res_loop = s\<rparr>)"

definition estimate ::
  "mbar_services \<Rightarrow> store \<Rightarrow> ref \<Rightarrow> ref \<Rightarrow> ref \<Rightarrow> int \<Rightarrow> fval \<Rightarrow> ref option \<Rightarrow> int
     \<Rightarrow> ('c, 'e) callback option \<Rightarrow> 'c \<Rightarrow> ('e py_error \<times> store) + 'c estimate_result" where
  "estimate svc h0 therm_state_counts bias_energy_sequence conf_state_sequence maxiter maxerr
       therm_energies err_out callback cbs =
     (case estimate_setup h0 therm_state_counts bias_energy_sequence conf_state_sequence
             therm_energies of
        Inl h \<Rightarrow> Inl (ValueError, h)
      | Inr (L, h) \<Rightarrow>
         (case run_loop (loop_body svc callback maxiter maxerr err_out L) (py_range maxiter)
                 (initial_state h cbs) of
            Inl e \<Rightarrow> Inl e
          | Inr s \<Rightarrow>
              Inr (estimate_finish svc bias_energy_sequence conf_state_sequence err_out L s)))"

subsection \<open>Notions for the statements about the driver\<close>

text \<open>
  The store that the call of the kernel in line 119 leaves, and the arrays
  \<^verbatim>\<open>therm_weights\<close> (the new weights) and \<^verbatim>\<open>old_therm_weights\<close> in it.
\<close>

definition updated :: "mbar_services \<Rightarrow> locals \<Rightarrow> store \<Rightarrow> store" where
  "updated svc L h =
     update_therm_weights_body svc (therm_state_counts_ref L) (old_therm_weights_ref L)
       (bias_weight_sequence_ref L) (scratch_T_ref L) (therm_weights_ref L) h"

definition new_weights :: "mbar_services \<Rightarrow> locals \<Rightarrow> store \<Rightarrow> fval list" where
  "new_weights svc L h = dvec (updated svc L h) ! therm_weights_ref L"

definition old_weights :: "mbar_services \<Rightarrow> locals \<Rightarrow> store \<Rightarrow> fval list" where
  "old_weights svc L h = dvec (updated svc L h) ! old_therm_weights_ref L"

text \<open>The outcome of the call of the callback in the pass for the index \<open>m\<close>.\<close>

definition observed ::
  "mbar_services \<Rightarrow> ('c, 'e) callback option \<Rightarrow> int \<Rightarrow> fval \<Rightarrow> locals \<Rightarrow> nat \<Rightarrow> 'c loop_state
     \<Rightarrow> 'e cb_outcome \<times> 'c" where
  "observed svc callback maxiter maxerr L m s =
     call_callback callback (cb_state s)
       \<lparr>iteration_step = m, cb_therm_weights = new_weights svc L (heap s),
        cb_old_therm_weights = old_weights svc L (heap s),
        cb_delta_relative_therm_weights =
          relative_change (new_weights svc L (heap s)) (old_weights svc L (heap s)),
        cb_err = the (np_max (relative_change (new_weights svc L (heap s))
                                (old_weights svc L (heap s)))),
        cb_maxerr = maxerr, cb_maxiter = maxiter\<rparr>"

text \<open>
  The value of \<^verbatim>\<open>err\<close> in the pass that starts in the state \<open>s\<close> (lines 119 to
  121): the maximum of the relative changes of the weights that the pass
  computes, and \<open>None\<close> where \<^verbatim>\<open>numpy.max\<close> raises.
\<close>

definition pass_err :: "mbar_services \<Rightarrow> locals \<Rightarrow> 'c loop_state \<Rightarrow> fval option" where
  "pass_err svc L s =
     np_max (relative_change (new_weights svc L (heap s)) (old_weights svc L (heap s)))"

text \<open>Every \<open>k\<close>-th element of a list: the elements at the positions \<open>k\<close>, \<open>2k\<close>, ..., counted from 1.\<close>

definition every_nth :: "nat \<Rightarrow> 'a list \<Rightarrow> 'a list" where
  "every_nth k xs = map (\<lambda>j. xs ! (j - 1)) (filter (\<lambda>j. k dvd j) [1..<Suc (length xs)])"

text \<open>
  The invariant of the loop on the trajectory: it holds every \<open>err_out\<close>-th
  value of \<^verbatim>\<open>err\<close>, and the counter is the number of passes since the last
  value was recorded.
\<close>

definition recorded :: "int \<Rightarrow> 'c loop_state \<Rightarrow> bool" where
  "recorded err_out s =
     (err_traj s = every_nth (nat err_out) (errs s) \<and> length (errs s) = passes s \<and>
      err_count s = (if 0 < err_out then int (passes s mod nat err_out) else int (passes s)))"

text \<open>A store \<open>h\<close> in which every array of the store \<open>h0\<close> is, with the contents it has in \<open>h0\<close>.\<close>

definition extends :: "store \<Rightarrow> store \<Rightarrow> bool" where
  "extends h0 h =
     (take (length (ivec h0)) (ivec h) = ivec h0 \<and>
      take (length (dvec h0)) (dvec h) = dvec h0 \<and>
      take (length (dmat h0)) (dmat h) = dmat h0)"

text \<open>
  The arrays that the loop and the last lines write are arrays of the store
  \<open>h\<close> that are not arrays of the caller's store \<open>h0\<close>, they are four arrays,
  and the weights and the old weights have the same length.
\<close>

definition local_arrays :: "store \<Rightarrow> locals \<Rightarrow> store \<Rightarrow> bool" where
  "local_arrays h0 L h =
     (length (dvec h0) \<le> therm_weights_ref L \<and> length (dvec h0) \<le> old_therm_weights_ref L \<and>
      length (dvec h0) \<le> scratch_T_ref L \<and> length (dvec h0) \<le> scratch_M_ref L \<and>
      therm_weights_ref L < length (dvec h) \<and> old_therm_weights_ref L < length (dvec h) \<and>
      scratch_T_ref L < length (dvec h) \<and> scratch_M_ref L < length (dvec h) \<and>
      distinct [therm_weights_ref L, old_therm_weights_ref L, scratch_T_ref L, scratch_M_ref L] \<and>
      length (dvec h ! therm_weights_ref L) = length (dvec h ! old_therm_weights_ref L))"

text \<open>The store after a call, whether it returns or raises.\<close>

definition final_store :: "('e py_error \<times> store) + 'c estimate_result \<Rightarrow> store" where
  "final_store r = (case r of Inl (e, h) \<Rightarrow> h | Inr res \<Rightarrow> res_store res)"

subsection \<open>A worked example\<close>

text \<open>
  Modelled from the spec: \<^verbatim>\<open>normalize\<close> of \<^verbatim>\<open>thermotools.mbar\<close> is not among the
  sources. By the specification (4.4 and 6) it computes one shift, the
  log-sum-exp of the negated configurational free energies, in the scratch
  array, and adds it in place to the three free-energy arrays.
\<close>

definition spec_normalize ::
  "fval list \<Rightarrow> matrix \<Rightarrow> fval list \<Rightarrow> fval list \<Rightarrow> fval list \<Rightarrow> matrix
     \<Rightarrow> fval list \<times> fval list \<times> fval list \<times> fval list" where
  "spec_normalize log_therm_state_counts bias_energy_sequence scratch_M therm_energies
       conf_energies biased_conf_energies =
     (let scratch = map fneg conf_energies;
          shift = logsumexp scratch
      in (scratch, map (\<lambda>x. fadd x shift) therm_energies,
          map (\<lambda>x. fadd x shift) conf_energies,
          map (\<lambda>x. fadd x shift) (entries biased_conf_energies)))"

text \<open>
  Collaborators for the examples: \<^verbatim>\<open>normalize\<close> as above, and stand-ins for the
  other two, whose results the specification does not determine: a kernel
  that adds 1 to every weight, and a \<^verbatim>\<open>get_conf_energies\<close> that returns free
  energies that are all 1.
\<close>

definition demo_services :: mbar_services where
  "demo_services =
     \<lparr>c_update_therm_weights = (\<lambda>counts w bws T X scr new. (scr, map (\<lambda>x. fadd x (Fin 1)) w)),
      mbar_get_conf_energies = (\<lambda>lc te bes css scr M.
         (replicate (nat M) (Fin 1),
          \<lparr>shape0 = length te, shape1 = nat M, entries = replicate (length te * nat M) (Fin 1),
           axes = Row_major, contiguous = True\<rparr>,
          scr)),
      mbar_normalize = spec_normalize\<rparr>"

text \<open>
  The caller's store of the examples: one thermodynamic state with one
  sample, in the configurational state 0. The integer arrays are
  \<^verbatim>\<open>therm_state_counts = [1]\<close> (reference 0) and \<^verbatim>\<open>conf_state_sequence = [0]\<close>
  (reference 1), \<^verbatim>\<open>bias_energy_sequence = [[0]]\<close> is the matrix 0, and the array
  0 of doubles is a vector \<open>[0]\<close> of thermodynamic free energies for a warm
  start.
\<close>

definition demo_store :: store where
  "demo_store =
     \<lparr>ivec = [[1], [0]], dvec = [[Fin 0]],
      dmat = [\<lparr>shape0 = 1, shape1 = 1, entries = [Fin 0], axes = Row_major, contiguous = True\<rparr>]\<rparr>"

text \<open>
  The local variables and the store of a call on that store without a warm
  start, with the contents \<open>w\<close> of \<^verbatim>\<open>therm_weights\<close> and \<open>old\<close> of
  \<^verbatim>\<open>old_therm_weights\<close>.
\<close>

definition demo_locals :: locals where
  "demo_locals =
     \<lparr>T_dim = 1, M_dim = 1, therm_state_counts_ref = 2, log_therm_state_counts_ref = 1,
      therm_energies_ref = 2, therm_weights_ref = 3, bias_weight_sequence_ref = 1,
      old_therm_energies_ref = 4, old_therm_weights_ref = 5, scratch_M_ref = 6,
      scratch_T_ref = 7\<rparr>"

definition demo_heap :: "fval list \<Rightarrow> fval list \<Rightarrow> store" where
  "demo_heap w old =
     \<lparr>ivec = [[1], [0], [1]],
      dvec = [[Fin 0], [Fin 0], [Fin 0], w, [Fin 0], old, [Fin 0], [Fin 0]],
      dmat = [\<lparr>shape0 = 1, shape1 = 1, entries = [Fin 0], axes = Row_major, contiguous = True\<rparr>,
              \<lparr>shape0 = 1, shape1 = 1, entries = [Fin 1], axes = Row_major, contiguous = True\<rparr>]\<rparr>"

text \<open>
  A callback without state that raises \<^verbatim>\<open>CallbackInterrupt\<close> at every call, and
  a callback that counts its calls, returns from the first and raises
  another exception at the second; the default tolerance; and the states of
  the loop before and after the first pass of a call without callback.
\<close>

definition always_interrupt :: "(unit, string) callback" where
  "always_interrupt cs a = (CallbackInterrupt, cs)"

definition raise_at_second :: "(nat, string) callback" where
  "raise_at_second calls a = (if calls = 1 then Raised ''boom'' else Returned, Suc calls)"

definition demo_maxerr :: fval where
  "demo_maxerr = Fin (1 / 100000000)"

definition demo_state0 :: "unit loop_state" where
  "demo_state0 = initial_state (demo_heap [Fin 1] [Fin 1]) ()"

definition demo_state1 :: "unit loop_state" where
  "demo_state1 =
     \<lparr>heap = demo_heap [Fin 2] [Fin 2], err_traj = [], err_count = 1, stop = False,
      cb_state = (), passes = 1, errs = [Fin (1 / 2)]\<rparr>"

text \<open>
  A caller's store with two thermodynamic states and two samples, whose
  \<^verbatim>\<open>bias_energy_sequence\<close> is a matrix of zeros in column-major layout (as
  \<^verbatim>\<open>numpy.asfortranarray\<close> gives it).
\<close>

definition column_major_store :: store where
  "column_major_store =
     \<lparr>ivec = [[1, 1], [0, 0]], dvec = [],
      dmat = [\<lparr>shape0 = 2, shape1 = 2, entries = [Fin 0, Fin 0, Fin 0, Fin 0],
               axes = Column_major, contiguous = True\<rparr>]\<rparr>"

section \<open>Properties of the log-sum-exp primitive\<close>

lemma finite_values_map_Fin: "finite_values (map Fin xs) = xs"
  by (induction xs) simp_all

lemma foldl_fadd_Fin: "foldl fadd (Fin a) (map Fin ys) = Fin (a + sum_list ys)"
  by (induction ys arbitrary: a) (simp_all add: add.assoc)

lemma fsum_map_Fin: "fsum (map Fin ys) = Fin (sum_list ys)"
  by (simp add: fsum_def foldl_fadd_Fin)

lemma foldl_max_Max: "foldl max x xs = Max (set (x # xs))"
proof -
  have "foldl max x xs = fold max xs x"
    by (simp add: foldl_conv_fold max.commute)
  then show ?thesis
    using Max.set_eq_fold [of x xs] by simp
qed

lemma logsumexp_Fin:
  assumes "xs \<noteq> []"
  shows "logsumexp (map Fin xs) =
           fadd (Fin (Max (set xs))) (flog (Fin (\<Sum>y\<leftarrow>xs. exp (y - Max (set xs)))))"
proof -
  obtain x xs' where xs: "xs = x # xs'"
    using assms by (cases xs) auto
  define M where "M = Max (set xs)"
  have M: "foldl max x xs' = M"
    unfolding M_def xs by (rule foldl_max_Max)
  have m: "map (\<lambda>y. fexp (fsub y (Fin M))) (map Fin xs) = map Fin (map (\<lambda>y. exp (y - M)) xs)"
    by (simp add: fsub_def)
  have fv: "finite_values (map Fin xs) = x # xs'"
    unfolding finite_values_map_Fin by (rule xs)
  have na: "\<not> list_all (\<lambda>x. x = NInf) (map Fin xs)"
    by (simp add: xs)
  have "logsumexp (map Fin xs) =
          fadd (Fin M) (flog (fsum (map (\<lambda>y. fexp (fsub y (Fin M))) (map Fin xs))))"
    unfolding logsumexp_def fv using na by (simp add: M Let_def)
  also have "\<dots> = fadd (Fin M) (flog (Fin (\<Sum>y\<leftarrow>xs. exp (y - M))))"
    unfolding m fsum_map_Fin ..
  finally show ?thesis
    unfolding M_def .
qed

lemma elem_le_sum_list:
  fixes f :: "'a \<Rightarrow> real"
  shows "x \<in> set xs \<Longrightarrow> (\<And>y. 0 \<le> f y) \<Longrightarrow> f x \<le> (\<Sum>y\<leftarrow>xs. f y)"
proof (induction xs)
  case Nil
  then show ?case by simp
next
  case (Cons a xs)
  have "0 \<le> (\<Sum>y\<leftarrow>xs. f y)"
    by (rule sum_list_nonneg) (auto simp: Cons.prems)
  moreover have "0 \<le> f a" by (rule Cons.prems)
  ultimately show ?case
    using Cons by (cases "x = a") fastforce+
qed

lemma sum_exp_ge_one:
  fixes xs :: "real list"
  assumes "xs \<noteq> []"
  shows "1 \<le> (\<Sum>y\<leftarrow>xs. exp (y - Max (set xs)))"
proof -
  have "Max (set xs) \<in> set xs"
    using assms by (simp add: Max_in)
  then have "exp (Max (set xs) - Max (set xs)) \<le> (\<Sum>y\<leftarrow>xs. exp (y - Max (set xs)))"
    using elem_le_sum_list [where f = "\<lambda>y. exp (y - Max (set xs))" and x = "Max (set xs)" and xs = xs]
    by simp
  then show ?thesis by simp
qed

lemma logsumexp_Fin_real:
  assumes "xs \<noteq> []"
  shows "logsumexp (map Fin xs) = Fin (Max (set xs) + ln (\<Sum>y\<leftarrow>xs. exp (y - Max (set xs))))"
proof -
  have "0 < (\<Sum>y\<leftarrow>xs. exp (y - Max (set xs)))"
    using sum_exp_ge_one [OF assms] by linarith
  then show ?thesis
    by (simp add: logsumexp_Fin [OF assms])
qed

lemma logsumexp_ge_max:
  assumes "xs \<noteq> []"
  shows "\<exists>r. logsumexp (map Fin xs) = Fin r \<and> Max (set xs) \<le> r"
proof -
  have "0 \<le> ln (\<Sum>y\<leftarrow>xs. exp (y - Max (set xs)))"
    using sum_exp_ge_one [OF assms] by simp
  then show ?thesis
    by (simp add: logsumexp_Fin_real [OF assms])
qed

lemma logsumexp_replicate:
  assumes "1 \<le> N"
  shows "logsumexp (replicate N (Fin c)) = Fin (c + ln (real N))"
proof -
  have ne: "replicate N c \<noteq> []" using assms by auto
  have mx: "Max (set (replicate N c)) = c" using assms by simp
  have "(\<Sum>y\<leftarrow>replicate N c. exp (y - c)) = real N"
    by (simp add: sum_list_replicate)
  then show ?thesis
    using logsumexp_Fin_real [OF ne] by (simp add: mx map_replicate [symmetric] del: map_replicate)
qed

lemma logsumexp_all_NInf: "list_all (\<lambda>x. x = NInf) v \<Longrightarrow> logsumexp v = NInf"
  by (simp add: logsumexp_def)

lemma foldl_fadd_special:
  "special a \<Longrightarrow> \<forall>y\<in>set w. y \<noteq> NInf \<Longrightarrow> special (foldl fadd a w)"
proof (induction w arbitrary: a)
  case Nil
  then show ?case by simp
next
  case (Cons y w)
  have "special (fadd a y)"
    using Cons.prems by (cases a; cases y) simp_all
  then show ?case
    using Cons by simp
qed

lemma fadd_not_NInf: "a \<noteq> NInf \<Longrightarrow> y \<noteq> NInf \<Longrightarrow> fadd a y \<noteq> NInf"
  by (cases a; cases y) simp_all

lemma fadd_special_right: "a \<noteq> NInf \<Longrightarrow> special y \<Longrightarrow> special (fadd a y)"
  by (cases a; cases y) simp_all

lemma fexp_special: "special y \<Longrightarrow> special (fexp y)"
  by (cases y) simp_all

lemma fexp_fsub_special: "special y \<Longrightarrow> special (fexp (fsub y (Fin M)))"
  by (cases y) (simp_all add: fsub_def)

lemma foldl_fadd_special_mem:
  "y0 \<in> set w \<Longrightarrow> special y0 \<Longrightarrow> \<forall>y\<in>set w. y \<noteq> NInf \<Longrightarrow> a \<noteq> NInf \<Longrightarrow>
     special (foldl fadd a w)"
proof (induction w arbitrary: a)
  case Nil
  then show ?case by simp
next
  case (Cons y w)
  show ?case
  proof (cases "y = y0")
    case True
    have "special (fadd a y)"
      using Cons.prems True by (intro fadd_special_right) simp_all
    then show ?thesis
      using Cons.prems foldl_fadd_special [of "fadd a y" w] by simp
  next
    case False
    have "fadd a y \<noteq> NInf"
      using Cons.prems by (intro fadd_not_NInf) simp_all
    then show ?thesis
      using Cons False by simp
  qed
qed

lemma fsum_special:
  assumes "y0 \<in> set w" "special y0" "\<forall>y\<in>set w. y \<noteq> NInf"
  shows "special (fsum w)"
  unfolding fsum_def using assms by (intro foldl_fadd_special_mem [of y0]) simp_all

lemma fexp_not_NInf: "fexp x \<noteq> NInf"
  by (cases x) simp_all

lemma flog_special: "special x \<Longrightarrow> special (flog x)"
  by (cases x) simp_all

lemma fadd_special: "special x \<Longrightarrow> fadd (Fin M) x \<noteq> Fin s"
  by (cases x) simp_all

lemma special_not_Fin: "special x \<Longrightarrow> x \<noteq> Fin s"
  by (cases x) simp_all

lemma finite_values_mem: "r \<in> set (finite_values v) \<longleftrightarrow> Fin r \<in> set v"
  by (induction v rule: finite_values.induct) auto

lemma finite_values_Nil_special:
  "finite_values v = [] \<Longrightarrow> \<not> list_all (\<lambda>x. x = NInf) v \<Longrightarrow> \<exists>y\<in>set v. special y"
  by (induction v rule: finite_values.induct) auto

lemma map_fexp_sub_regular:
  assumes "\<forall>x\<in>set v. \<not> special x"
  shows "map (\<lambda>y. fexp (fsub y (Fin M))) v = map Fin (map (\<lambda>x. expval x * exp (- M)) v)"
proof -
  have "fexp (fsub y (Fin M)) = Fin (expval y * exp (- M))" if "\<not> special y" for y
    using that by (cases y) (simp_all add: fsub_def exp_diff exp_minus divide_inverse)
  then show ?thesis
    using assms by simp
qed

lemma expval_nonneg: "0 \<le> expval x"
  by (cases x) simp_all

lemma logsumexp_Fin_D:
  assumes lse: "logsumexp v = Fin s"
  shows "(\<forall>x\<in>set v. \<not> special x) \<and> (\<Sum>x\<leftarrow>v. expval x) = exp s"
proof -
  have na: "\<not> list_all (\<lambda>x. x = NInf) v"
    using lse by (auto simp: logsumexp_def)
  show ?thesis
  proof (cases "finite_values v")
    case Nil
    then obtain y0 where y0: "y0 \<in> set v" "special y0"
      using finite_values_Nil_special [OF _ na] by auto
    have "special (fsum (map fexp v))"
    proof (rule fsum_special)
      show "fexp y0 \<in> set (map fexp v)" using y0 by simp
      show "special (fexp y0)" using y0 by (intro fexp_special) simp
      show "\<forall>y\<in>set (map fexp v). y \<noteq> NInf" by (auto simp: fexp_not_NInf)
    qed
    then have "special (logsumexp v)"
      using na Nil by (simp add: logsumexp_def flog_special)
    then show ?thesis
      using lse by simp
  next
    case (Cons x xs)
    define M where "M = foldl max x xs"
    have M: "M \<in> set (finite_values v)"
      unfolding M_def Cons foldl_max_Max by (rule Max_in) simp_all
    then have Mv: "Fin M \<in> set v"
      by (simp add: finite_values_mem)
    let ?w = "map (\<lambda>y. fexp (fsub y (Fin M))) v"
    have eq: "logsumexp v = fadd (Fin M) (flog (fsum ?w))"
      using na by (simp add: logsumexp_def Cons M_def Let_def)
    have reg: "\<forall>x\<in>set v. \<not> special x"
    proof (rule ccontr)
      assume "\<not> (\<forall>x\<in>set v. \<not> special x)"
      then obtain y0 where y0: "y0 \<in> set v" "special y0" by auto
      have "special (fsum ?w)"
      proof (rule fsum_special)
        show "fexp (fsub y0 (Fin M)) \<in> set ?w" using y0 by simp
        show "special (fexp (fsub y0 (Fin M)))" using y0 by (intro fexp_fsub_special) simp
        show "\<forall>y\<in>set ?w. y \<noteq> NInf" by (auto simp: fexp_not_NInf)
      qed
      then have "fadd (Fin M) (flog (fsum ?w)) \<noteq> Fin s"
        by (intro fadd_special flog_special)
      then show False using lse eq by simp
    qed
    define S where "S = (\<Sum>x\<leftarrow>v. expval x)"
    have "expval (Fin M) \<le> S"
      unfolding S_def using Mv by (intro elem_le_sum_list) (simp_all add: expval_nonneg)
    then have Spos: "0 < S"
      using exp_gt_zero [of M] by (simp del: exp_gt_zero)
    define t where "t = S * exp (- M)"
    have tpos: "0 < t"
      unfolding t_def using Spos by simp
    have "fsum ?w = Fin t"
      unfolding map_fexp_sub_regular [OF reg] fsum_map_Fin S_def t_def
      by (simp add: sum_list_mult_const o_def)
    moreover have "flog (Fin t) = Fin (ln t)"
      using tpos by simp
    ultimately have "logsumexp v = Fin (M + ln t)"
      by (simp only: eq fadd.simps)
    also have "ln t = ln S - M"
      unfolding t_def using Spos by (simp add: ln_mult)
    also have "Fin (M + (ln S - M)) = Fin (ln S)"
      by simp
    finally have "s = ln S" using lse by simp
    then show ?thesis
      using reg Spos by (simp add: S_def)
  qed
qed

section \<open>Closed forms of the kernels\<close>

lemma upt_Suc_snoc: "[0..<Suc j] = [0..<j] @ [j]"
  by simp

lemma fold_store:
  assumes g: "\<And>i m'. i < n \<Longrightarrow> (\<forall>a. \<not> (p \<le> a \<and> a < p + i) \<longrightarrow> m' a = m a) \<Longrightarrow> g i m' = v i"
  shows "fold (\<lambda>i m. m(p + i := g i m)) [0..<n] m =
           (\<lambda>a. if p \<le> a \<and> a < p + n then v (a - p) else m a)"
proof -
  have "j \<le> n \<Longrightarrow> fold (\<lambda>i m. m(p + i := g i m)) [0..<j] m =
           (\<lambda>a. if p \<le> a \<and> a < p + j then v (a - p) else m a)" for j
  proof (induction j)
    case 0
    then show ?case by (auto simp: fun_eq_iff)
  next
    case (Suc j)
    let ?m' = "\<lambda>a. if p \<le> a \<and> a < p + j then v (a - p) else m a"
    have gj: "g j ?m' = v j"
      using Suc.prems by (intro g) auto
    have jn: "j \<le> n" using Suc.prems by simp
    have IH: "fold (\<lambda>i m. m(p + i := g i m)) [0..<j] m = ?m'"
      by (rule Suc.IH [OF jn])
    have "fold (\<lambda>i m. m(p + i := g i m)) [0..<Suc j] m = ?m'(p + j := g j ?m')"
      by (simp only: upt_Suc_snoc fold_append fold_simps o_apply IH)
    also have "\<dots> = ?m'(p + j := v j)"
      by (simp only: gj)
    also have "\<dots> = (\<lambda>a. if p \<le> a \<and> a < p + Suc j then v (a - p) else m a)"
      by (auto simp: fun_eq_iff)
    finally show ?case .
  qed
  then show ?thesis by simp
qed

lemma idx2: "K < T \<Longrightarrow> i < M \<Longrightarrow> K * M + i < T * (M::nat)"
proof -
  assume "K < T" "i < M"
  then have "K * M + i < Suc K * M" by simp
  also have "\<dots> \<le> T * M" using \<open>K < T\<close> by (intro mult_le_mono1) simp
  finally show ?thesis .
qed

lemma apart_out: "apart p n q k \<Longrightarrow> i < k \<Longrightarrow> \<not> (p \<le> q + i \<and> q + i < p + n)"
  by (auto simp: apart_def)

lemma read_block_eq: "(\<And>i. i < n \<Longrightarrow> m (p + i) = v i) \<Longrightarrow> read_block m p n = map v [0..<n]"
  by (simp add: read_block_def)

lemma rc_wham_normalize_closed:
  assumes ap: "apart scratch n f_i n"
  shows "rc_wham_normalize f_i n scratch m =
     (\<lambda>a. if f_i \<le> a \<and> a < f_i + n then fadd (m a) (logsumexp (map (\<lambda>i. fneg (m (f_i + i))) [0..<n]))
          else if scratch \<le> a \<and> a < scratch + n then fneg (m (f_i + (a - scratch)))
          else m a)"
proof -
  let ?m1 = "\<lambda>a. if scratch \<le> a \<and> a < scratch + n then fneg (m (f_i + (a - scratch))) else m a"
  have m1: "fold (\<lambda>i m. m(scratch + i := fneg (m (f_i + i)))) [0..<n] m = ?m1"
  proof (rule fold_store)
    fix i m' assume "i < n" "\<forall>a. \<not> (scratch \<le> a \<and> a < scratch + i) \<longrightarrow> m' a = m a"
    then show "fneg (m' (f_i + i)) = fneg (m (f_i + i))"
      using apart_out [OF ap, of i] by auto
  qed
  have rb: "read_block ?m1 scratch n = map (\<lambda>i. fneg (m (f_i + i))) [0..<n]"
    by (rule read_block_eq) simp
  have sh: "rc_logsumexp ?m1 scratch n = logsumexp (map (\<lambda>i. fneg (m (f_i + i))) [0..<n])"
    by (simp only: rc_logsumexp_def rb)
  let ?s = "logsumexp (map (\<lambda>i. fneg (m (f_i + i))) [0..<n])"
  have m2: "fold (\<lambda>i m. m(f_i + i := fadd (m (f_i + i)) ?s)) [0..<n] ?m1 =
     (\<lambda>a. if f_i \<le> a \<and> a < f_i + n then fadd (?m1 (f_i + (a - f_i))) ?s else ?m1 a)"
    by (rule fold_store) auto
  have "rc_wham_normalize f_i n scratch m =
     (\<lambda>a. if f_i \<le> a \<and> a < f_i + n then fadd (?m1 (f_i + (a - f_i))) ?s else ?m1 a)"
    unfolding rc_wham_normalize_def Let_def m1 sh m2 ..
  also have "\<dots> = (\<lambda>a. if f_i \<le> a \<and> a < f_i + n then fadd (m a) ?s
          else if scratch \<le> a \<and> a < scratch + n then fneg (m (f_i + (a - scratch)))
          else m a)"
    using ap by (auto simp: fun_eq_iff apart_def)
  finally show ?thesis .
qed

lemma rc_wham_fk_closed:
  assumes s_fi: "apart scratch M f_i M" and s_b: "apart scratch M b_K_i (T * M)"
    and s_fK: "apart scratch M f_K T"
    and fK_fi: "apart f_K T f_i M" and fK_b: "apart f_K T b_K_i (T * M)"
  shows "rc_wham_fk f_i b_K_i T M scratch f_K m =
     (\<lambda>a. if f_K \<le> a \<and> a < f_K + T
            then fneg (logsumexp (map (fk_term f_i b_K_i M m (a - f_K)) [0..<M]))
          else if scratch \<le> a \<and> a < scratch + M \<and> 0 < T
            then fk_term f_i b_K_i M m (T - 1) (a - scratch)
          else m a)"
proof -
  let ?S = "fk_term f_i b_K_i M m"
  let ?body = "\<lambda>K m.
        let KM = K * M;
            m1 = fold (\<lambda>i m. m(scratch + i := fneg (fadd (m (b_K_i + (KM + i))) (m (f_i + i)))))
                 [0..<M] m
        in m1(f_K + K := fneg (rc_logsumexp m1 scratch M))"
  let ?R = "\<lambda>j a. if f_K \<le> a \<and> a < f_K + j
            then fneg (logsumexp (map (?S (a - f_K)) [0..<M]))
          else if scratch \<le> a \<and> a < scratch + M \<and> 0 < j
            then ?S (j - 1) (a - scratch)
          else m a"
  have step: "?body j (?R j) = ?R (Suc j)" if j: "j < T" for j
  proof -
    let ?m1 = "\<lambda>a. if scratch \<le> a \<and> a < scratch + M then ?S j (a - scratch) else ?R j a"
    have m1: "fold (\<lambda>i m. m(scratch + i := fneg (fadd (m (b_K_i + (j * M + i))) (m (f_i + i)))))
                 [0..<M] (?R j) = ?m1"
    proof (rule fold_store)
      fix i m' assume i: "i < M" and ag: "\<forall>a. \<not> (scratch \<le> a \<and> a < scratch + i) \<longrightarrow> m' a = ?R j a"
      have ji: "j * M + i < T * M" using j i by (rule idx2)
      have 1: "m' (f_i + i) = m (f_i + i)"
        using ag i apart_out [OF s_fi i] apart_out [OF fK_fi i] j by auto
      have 2: "m' (b_K_i + (j * M + i)) = m (b_K_i + (j * M + i))"
        using ag i apart_out [OF s_b ji] apart_out [OF fK_b ji] j by auto
      show "fneg (fadd (m' (b_K_i + (j * M + i))) (m' (f_i + i))) = ?S j i"
        by (simp only: 1 2 fk_term_def)
    qed
    have rb: "read_block ?m1 scratch M = map (?S j) [0..<M]"
      by (rule read_block_eq) simp
    have "?body j (?R j) = ?m1(f_K + j := fneg (logsumexp (map (?S j) [0..<M])))"
      unfolding Let_def m1 rc_logsumexp_def rb ..
    also have "\<dots> = ?R (Suc j)"
      using s_fK j by (auto simp: fun_eq_iff less_Suc_eq apart_def)
    finally show ?thesis .
  qed
  have "j \<le> T \<Longrightarrow> fold ?body [0..<j] m = ?R j" for j
  proof (induction j)
    case 0
    then show ?case by (auto simp: fun_eq_iff)
  next
    case (Suc j)
    have jT: "j < T" "j \<le> T" using Suc.prems by simp_all
    show ?case
      by (simp only: upt_Suc_snoc fold_append fold_simps o_apply Suc.IH [OF jT(2)] step [OF jT(1)])
  qed
  then show ?thesis
    unfolding rc_wham_fk_def by simp
qed

lemma rc_wham_fi_closed:
  assumes s_NK: "apart scratch T log_N_K T" and s_b: "apart scratch T b_K_i (T * M)"
    and s_fK: "apart scratch T f_K T" and s_Ni: "apart scratch T log_N_i M"
    and s_fi: "apart scratch T f_i M"
    and fi_NK: "apart f_i M log_N_K T" and fi_b: "apart f_i M b_K_i (T * M)"
    and fi_fK: "apart f_i M f_K T" and fi_Ni: "apart f_i M log_N_i M"
  shows "rc_wham_fi log_N_K log_N_i f_K b_K_i T M scratch f_i m =
     (\<lambda>a. if f_i \<le> a \<and> a < f_i + M
            then fsub (logsumexp (map (fi_term log_N_K f_K b_K_i M m (a - f_i)) [0..<T]))
                      (m (log_N_i + (a - f_i)))
          else if scratch \<le> a \<and> a < scratch + T \<and> 0 < M
            then fi_term log_N_K f_K b_K_i M m (M - 1) (a - scratch)
          else m a)"
proof -
  let ?S = "fi_term log_N_K f_K b_K_i M m"
  let ?body = "\<lambda>i m.
        let m1 = fold (\<lambda>K m. m(scratch + K :=
                   fadd (fsub (m (log_N_K + K)) (m (b_K_i + (K * M + i))))
                        (m (f_K + K))))
                 [0..<T] m
        in m1(f_i + i := fsub (rc_logsumexp m1 scratch T) (m1 (log_N_i + i)))"
  let ?R = "\<lambda>j a. if f_i \<le> a \<and> a < f_i + j
            then fsub (logsumexp (map (?S (a - f_i)) [0..<T])) (m (log_N_i + (a - f_i)))
          else if scratch \<le> a \<and> a < scratch + T \<and> 0 < j
            then ?S (j - 1) (a - scratch)
          else m a"
  have step: "?body j (?R j) = ?R (Suc j)" if j: "j < M" for j
  proof -
    let ?m1 = "\<lambda>a. if scratch \<le> a \<and> a < scratch + T then ?S j (a - scratch) else ?R j a"
    have m1: "fold (\<lambda>K m. m(scratch + K :=
                   fadd (fsub (m (log_N_K + K)) (m (b_K_i + (K * M + j))))
                        (m (f_K + K))))
                 [0..<T] (?R j) = ?m1"
    proof (rule fold_store)
      fix K m' assume K: "K < T" and ag: "\<forall>a. \<not> (scratch \<le> a \<and> a < scratch + K) \<longrightarrow> m' a = ?R j a"
      have Kj: "K * M + j < T * M" using K j by (rule idx2)
      have 1: "m' (log_N_K + K) = m (log_N_K + K)"
        using ag K apart_out [OF s_NK K] apart_out [OF fi_NK K] j by auto
      have 2: "m' (b_K_i + (K * M + j)) = m (b_K_i + (K * M + j))"
        using ag K apart_out [OF s_b Kj] apart_out [OF fi_b Kj] j by auto
      have 3: "m' (f_K + K) = m (f_K + K)"
        using ag K apart_out [OF s_fK K] apart_out [OF fi_fK K] j by auto
      show "fadd (fsub (m' (log_N_K + K)) (m' (b_K_i + (K * M + j)))) (m' (f_K + K)) = ?S j K"
        by (simp only: 1 2 3 fi_term_def)
    qed
    have rb: "read_block ?m1 scratch T = map (?S j) [0..<T]"
      by (rule read_block_eq) simp
    have Ni: "?m1 (log_N_i + j) = m (log_N_i + j)"
      using apart_out [OF s_Ni j] apart_out [OF fi_Ni j] j by auto
    have "?body j (?R j) =
            ?m1(f_i + j := fsub (logsumexp (map (?S j) [0..<T])) (m (log_N_i + j)))"
      unfolding Let_def m1 rc_logsumexp_def rb Ni ..
    also have "\<dots> = ?R (Suc j)"
      using s_fi j by (auto simp: fun_eq_iff less_Suc_eq apart_def)
    finally show ?thesis .
  qed
  have "j \<le> M \<Longrightarrow> fold ?body [0..<j] m = ?R j" for j
  proof (induction j)
    case 0
    then show ?case by (auto simp: fun_eq_iff)
  next
    case (Suc j)
    have jM: "j < M" "j \<le> M" using Suc.prems by simp_all
    show ?case
      by (simp only: upt_Suc_snoc fold_append fold_simps o_apply Suc.IH [OF jM(2)] step [OF jM(1)])
  qed
  then show ?thesis
    unfolding rc_wham_fi_def by simp
qed

lemma logsumexp_regular:
  assumes reg: "\<forall>x\<in>set v. \<not> special x" and na: "\<not> list_all (\<lambda>x. x = NInf) v"
  shows "logsumexp v = Fin (ln (\<Sum>x\<leftarrow>v. expval x)) \<and> 0 < (\<Sum>x\<leftarrow>v. expval x)"
proof (cases "finite_values v")
  case Nil
  then show ?thesis
    using finite_values_Nil_special [OF _ na] reg by auto
next
  case (Cons x xs)
  define M where "M = foldl max x xs"
  have M: "M \<in> set (finite_values v)"
    unfolding M_def Cons foldl_max_Max by (rule Max_in) simp_all
  then have Mv: "Fin M \<in> set v"
    by (simp add: finite_values_mem)
  let ?w = "map (\<lambda>y. fexp (fsub y (Fin M))) v"
  have eq: "logsumexp v = fadd (Fin M) (flog (fsum ?w))"
    using na by (simp add: logsumexp_def Cons M_def Let_def)
  define S where "S = (\<Sum>x\<leftarrow>v. expval x)"
  have "expval (Fin M) \<le> S"
    unfolding S_def using Mv by (intro elem_le_sum_list) (simp_all add: expval_nonneg)
  then have Spos: "0 < S"
    using exp_gt_zero [of M] by (simp del: exp_gt_zero)
  define t where "t = S * exp (- M)"
  have tpos: "0 < t"
    unfolding t_def using Spos by simp
  have "fsum ?w = Fin t"
    unfolding map_fexp_sub_regular [OF reg] fsum_map_Fin S_def t_def
    by (simp add: sum_list_mult_const o_def)
  moreover have "flog (Fin t) = Fin (ln t)"
    using tpos by simp
  ultimately have "logsumexp v = Fin (M + ln t)"
    by (simp only: eq fadd.simps)
  also have "ln t = ln S - M"
    unfolding t_def using Spos by (simp add: ln_mult)
  also have "Fin (M + (ln S - M)) = Fin (ln S)"
    by simp
  finally show ?thesis
    using Spos by (simp add: S_def)
qed

lemma fexp_shifted:
  "\<not> special (fneg x) \<Longrightarrow> fexp (fneg (fadd x (Fin s))) = Fin (expval (fneg x) * exp (- s))"
  by (cases x) (simp_all add: exp_add exp_minus exp_diff field_simps)

lemma shifted_regular: "\<not> special (fneg x) \<Longrightarrow> \<not> special (fneg (fadd x (Fin s)))"
  by (cases x) simp_all

lemma expval_shifted:
  "\<not> special (fneg x) \<Longrightarrow> expval (fneg (fadd x (Fin s))) = expval (fneg x) * exp (- s)"
  by (cases x) (simp_all add: exp_add exp_minus exp_diff field_simps)

lemma fadd_zero: "fadd x (Fin 0) = x"
  by (cases x) simp_all

lemma normalized_weights:
  assumes fin: "logsumexp (map (\<lambda>i. fneg (m (f_i + i))) [0..<n]) = Fin s"
  shows "(\<Sum>i\<leftarrow>[0..<n]. expval (fneg (m (f_i + i))) * exp (- s)) = 1"
proof -
  have "(\<Sum>x\<leftarrow>map (\<lambda>i. fneg (m (f_i + i))) [0..<n]. expval x) = exp s"
    using logsumexp_Fin_D [OF fin] by simp
  then have "(\<Sum>i\<leftarrow>[0..<n]. expval (fneg (m (f_i + i)))) = exp s"
    by (simp add: o_def)
  then have "(\<Sum>i\<leftarrow>[0..<n]. expval (fneg (m (f_i + i))) * exp (- s)) = exp s * exp (- s)"
    by (simp add: sum_list_mult_const)
  then show ?thesis
    by (simp add: exp_minus)
qed

lemma normalize_at:
  assumes ap: "apart scratch n f_i n" and i: "i < n"
  shows "rc_wham_normalize f_i n scratch m (f_i + i) =
           fadd (m (f_i + i)) (logsumexp (map (\<lambda>i. fneg (m (f_i + i))) [0..<n]))"
  using i by (simp add: rc_wham_normalize_closed [OF ap])

lemma normalize_outside:
  assumes ap: "apart scratch n f_i n"
    and "\<not> (f_i \<le> a \<and> a < f_i + n)" "\<not> (scratch \<le> a \<and> a < scratch + n)"
  shows "rc_wham_normalize f_i n scratch m a = m a"
  unfolding rc_wham_normalize_closed [OF ap] using assms(2,3) by auto

lemma normalize_sum_one:
  assumes ap: "apart scratch n f_i n"
    and fin: "logsumexp (map (\<lambda>i. fneg (m (f_i + i))) [0..<n]) = Fin s"
  shows "fsum (map (\<lambda>i. fexp (fneg (rc_wham_normalize f_i n scratch m (f_i + i)))) [0..<n]) = Fin 1"
proof -
  have reg: "\<not> special (fneg (m (f_i + i)))" if "i < n" for i
    using logsumexp_Fin_D [OF fin] that by simp
  have "map (\<lambda>i. fexp (fneg (rc_wham_normalize f_i n scratch m (f_i + i)))) [0..<n] =
        map (\<lambda>i. Fin (expval (fneg (m (f_i + i))) * exp (- s))) [0..<n]"
    by (rule map_cong) (simp_all add: normalize_at [OF ap] fin fexp_shifted reg)
  also have "\<dots> = map Fin (map (\<lambda>i. expval (fneg (m (f_i + i))) * exp (- s)) [0..<n])"
    by (simp add: o_def)
  finally show ?thesis
    by (simp only: fsum_map_Fin normalized_weights [OF fin])
qed

lemma normalize_second_shift:
  assumes ap: "apart scratch n f_i n"
    and fin: "logsumexp (map (\<lambda>i. fneg (m (f_i + i))) [0..<n]) = Fin s"
  shows "logsumexp (map (\<lambda>i. fneg (rc_wham_normalize f_i n scratch m (f_i + i))) [0..<n]) = Fin 0"
proof -
  let ?v = "map (\<lambda>i. fneg (m (f_i + i))) [0..<n]"
  let ?v' = "map (\<lambda>i. fneg (fadd (m (f_i + i)) (Fin s))) [0..<n]"
  have reg: "\<not> special (fneg (m (f_i + i)))" if "i < n" for i
    using logsumexp_Fin_D [OF fin] that by simp
  have v': "map (\<lambda>i. fneg (rc_wham_normalize f_i n scratch m (f_i + i))) [0..<n] = ?v'"
    by (rule map_cong) (simp_all add: normalize_at [OF ap] fin)
  have reg': "\<forall>x\<in>set ?v'. \<not> special x"
    using reg by (auto simp: shifted_regular)
  have "(\<Sum>x\<leftarrow>?v'. expval x) = (\<Sum>i\<leftarrow>[0..<n]. expval (fneg (m (f_i + i))) * exp (- s))"
    unfolding map_map o_def
    by (rule arg_cong [where f = sum_list], rule map_cong) (simp_all add: expval_shifted reg)
  then have one: "(\<Sum>x\<leftarrow>?v'. expval x) = 1"
    by (simp only: normalized_weights [OF fin])
  have na: "\<not> list_all (\<lambda>x. x = NInf) ?v'"
  proof
    assume "list_all (\<lambda>x. x = NInf) ?v'"
    then have "map expval ?v' = map (\<lambda>_. 0) ?v'"
      by (intro map_cong) (auto simp: list_all_iff)
    then have "(\<Sum>x\<leftarrow>?v'. expval x) = 0"
      by (simp only: sum_list_0)
    then show False using one by simp
  qed
  show ?thesis
    unfolding v' using logsumexp_regular [OF reg' na] by (simp only: one) simp
qed

lemma normalize_idempotent:
  assumes ap: "apart scratch n f_i n"
    and fin: "logsumexp (map (\<lambda>i. fneg (m (f_i + i))) [0..<n]) = Fin s"
    and a: "\<not> (scratch \<le> a \<and> a < scratch + n)"
  shows "rc_wham_normalize f_i n scratch (rc_wham_normalize f_i n scratch m) a =
         rc_wham_normalize f_i n scratch m a"
proof (cases "f_i \<le> a \<and> a < f_i + n")
  case True
  then obtain i where i: "i < n" "a = f_i + i"
    by (metis add_diff_inverse_nat less_diff_conv2 linorder_not_less add.commute nat_add_left_cancel_less)
  show ?thesis
    unfolding i(2) normalize_at [OF ap i(1), of "rc_wham_normalize f_i n scratch m"]
      normalize_second_shift [OF ap fin] fadd_zero ..
next
  case False
  show ?thesis
    by (simp only: normalize_outside [OF ap False a])
qed

lemma block_index: "p \<le> a \<Longrightarrow> a < p + n \<Longrightarrow> \<exists>i<n. a = p + (i::nat)"
  by (rule exI [of _ "a - p"]) auto

lemma logsumexp_pair_zero: "logsumexp [Fin 0, Fin 0] = Fin (ln 2)"
  using logsumexp_replicate [of 2 0] by (simp add: numeral_2_eq_2)

lemma logsumexp_single: "logsumexp [Fin c] = Fin c"
  using logsumexp_replicate [of 1 c] by simp

section \<open>The kernels and the contents of the scratch buffer\<close>

lemma overwrite_outside:
  "length vs \<le> n \<Longrightarrow> \<not> (p \<le> a \<and> a < p + n) \<Longrightarrow> overwrite m p vs a = m a"
  by (auto simp: overwrite_def)

lemma overwrite_apart:
  "length vs \<le> n \<Longrightarrow> apart p n q k \<Longrightarrow> i < k \<Longrightarrow> overwrite m p vs (q + i) = m (q + i)"
  using apart_out [of p n q k i] by (intro overwrite_outside) auto

lemma rc_wham_fk_at:
  assumes ap: "apart scratch M f_i M" "apart scratch M b_K_i (T * M)"
      "apart scratch M f_K T" "apart f_K T f_i M" "apart f_K T b_K_i (T * M)"
    and K: "K < T"
  shows "rc_wham_fk f_i b_K_i T M scratch f_K m (f_K + K) =
           fneg (logsumexp (map (fk_term f_i b_K_i M m K) [0..<M]))"
  unfolding rc_wham_fk_closed [OF ap] using K by simp

lemma rc_wham_fk_outside:
  assumes ap: "apart scratch M f_i M" "apart scratch M b_K_i (T * M)"
      "apart scratch M f_K T" "apart f_K T f_i M" "apart f_K T b_K_i (T * M)"
    and a: "\<not> (f_K \<le> a \<and> a < f_K + T)" "\<not> (scratch \<le> a \<and> a < scratch + M)"
  shows "rc_wham_fk f_i b_K_i T M scratch f_K m a = m a"
  unfolding rc_wham_fk_closed [OF ap] using a by auto

lemma rc_wham_fi_at:
  assumes ap: "apart scratch T log_N_K T" "apart scratch T b_K_i (T * M)"
      "apart scratch T f_K T" "apart scratch T log_N_i M" "apart scratch T f_i M"
      "apart f_i M log_N_K T" "apart f_i M b_K_i (T * M)"
      "apart f_i M f_K T" "apart f_i M log_N_i M"
    and i: "i < M"
  shows "rc_wham_fi log_N_K log_N_i f_K b_K_i T M scratch f_i m (f_i + i) =
           fsub (logsumexp (map (fi_term log_N_K f_K b_K_i M m i) [0..<T])) (m (log_N_i + i))"
  unfolding rc_wham_fi_closed [OF ap] using i by simp

lemma rc_wham_fi_outside:
  assumes ap: "apart scratch T log_N_K T" "apart scratch T b_K_i (T * M)"
      "apart scratch T f_K T" "apart scratch T log_N_i M" "apart scratch T f_i M"
      "apart f_i M log_N_K T" "apart f_i M b_K_i (T * M)"
      "apart f_i M f_K T" "apart f_i M log_N_i M"
    and a: "\<not> (f_i \<le> a \<and> a < f_i + M)" "\<not> (scratch \<le> a \<and> a < scratch + T)"
  shows "rc_wham_fi log_N_K log_N_i f_K b_K_i T M scratch f_i m a = m a"
  unfolding rc_wham_fi_closed [OF ap] using a by auto

lemma rc_wham_fk_scratch:
  assumes ap: "apart scratch M f_i M" "apart scratch M b_K_i (T * M)"
      "apart scratch M f_K T" "apart f_K T f_i M" "apart f_K T b_K_i (T * M)"
    and vs: "length vs \<le> M" and a: "\<not> (scratch \<le> a \<and> a < scratch + M)"
  shows "rc_wham_fk f_i b_K_i T M scratch f_K (overwrite m scratch vs) a =
         rc_wham_fk f_i b_K_i T M scratch f_K m a"
proof -
  let ?m = "overwrite m scratch vs"
  have t: "fk_term f_i b_K_i M ?m K i = fk_term f_i b_K_i M m K i" if "K < T" "i < M" for K i
    unfolding fk_term_def
    using overwrite_apart [OF vs ap(1) that(2)] overwrite_apart [OF vs ap(2) idx2 [OF that]]
    by simp
  have l: "map (fk_term f_i b_K_i M ?m K) [0..<M] = map (fk_term f_i b_K_i M m K) [0..<M]"
    if "K < T" for K
    by (rule map_cong) (simp_all add: t that)
  show ?thesis
  proof (cases "f_K \<le> a \<and> a < f_K + T")
    case True
    then obtain K where K: "K < T" "a = f_K + K"
      using block_index by blast
    show ?thesis
      by (simp only: K(2) rc_wham_fk_at [OF ap K(1)] l [OF K(1)])
  next
    case False
    show ?thesis
      by (simp only: rc_wham_fk_outside [OF ap False a] overwrite_outside [OF vs a])
  qed
qed

lemma rc_wham_fi_scratch:
  assumes ap: "apart scratch T log_N_K T" "apart scratch T b_K_i (T * M)"
      "apart scratch T f_K T" "apart scratch T log_N_i M" "apart scratch T f_i M"
      "apart f_i M log_N_K T" "apart f_i M b_K_i (T * M)"
      "apart f_i M f_K T" "apart f_i M log_N_i M"
    and vs: "length vs \<le> T" and a: "\<not> (scratch \<le> a \<and> a < scratch + T)"
  shows "rc_wham_fi log_N_K log_N_i f_K b_K_i T M scratch f_i (overwrite m scratch vs) a =
         rc_wham_fi log_N_K log_N_i f_K b_K_i T M scratch f_i m a"
proof -
  let ?m = "overwrite m scratch vs"
  have t: "fi_term log_N_K f_K b_K_i M ?m i K = fi_term log_N_K f_K b_K_i M m i K"
    if "K < T" "i < M" for K i
    unfolding fi_term_def
    using overwrite_apart [OF vs ap(1) that(1)] overwrite_apart [OF vs ap(2) idx2 [OF that]]
      overwrite_apart [OF vs ap(3) that(1)]
    by simp
  have l: "map (fi_term log_N_K f_K b_K_i M ?m i) [0..<T] =
           map (fi_term log_N_K f_K b_K_i M m i) [0..<T]" if "i < M" for i
    by (rule map_cong) (simp_all add: t that)
  show ?thesis
  proof (cases "f_i \<le> a \<and> a < f_i + M")
    case True
    then obtain i where i: "i < M" "a = f_i + i"
      using block_index by blast
    show ?thesis
      by (simp only: i(2) rc_wham_fi_at [OF ap i(1)] l [OF i(1)] overwrite_apart [OF vs ap(4) i(1)])
  next
    case False
    show ?thesis
      by (simp only: rc_wham_fi_outside [OF ap False a] overwrite_outside [OF vs a])
  qed
qed

lemma rc_wham_normalize_scratch:
  assumes ap: "apart scratch n f_i n"
    and vs: "length vs \<le> n" and a: "\<not> (scratch \<le> a \<and> a < scratch + n)"
  shows "rc_wham_normalize f_i n scratch (overwrite m scratch vs) a =
         rc_wham_normalize f_i n scratch m a"
proof -
  let ?m = "overwrite m scratch vs"
  have l: "map (\<lambda>i. fneg (?m (f_i + i))) [0..<n] = map (\<lambda>i. fneg (m (f_i + i))) [0..<n]"
    by (rule map_cong) (simp_all add: overwrite_apart [OF vs ap])
  show ?thesis
  proof (cases "f_i \<le> a \<and> a < f_i + n")
    case True
    then obtain i where i: "i < n" "a = f_i + i"
      using block_index by blast
    show ?thesis
      by (simp only: i(2) normalize_at [OF ap i(1)] l overwrite_apart [OF vs ap i(1)])
  next
    case False
    show ?thesis
      by (simp only: normalize_outside [OF ap False a] overwrite_outside [OF vs a])
  qed
qed

section \<open>The claims about the kernels\<close>

text \<open>
  Claim C8. For every vector of \<open>N \<ge> 1\<close> finite values, the log-sum-exp primitive
  returns a finite value that is at least the maximum of the vector; when
  all entries are equal to \<open>c\<close> it returns \<open>c + ln N\<close> (for \<open>[-1, -1, -1]\<close> this is
  \<open>-1 + ln 3\<close>); and when all entries are negative infinity it returns negative
  infinity.
\<close>

theorem rc_logsumexp_spec:
  "(1 \<le> N \<and> read_block m v N = map Fin xs \<longrightarrow>
      (\<exists>r. rc_logsumexp m v N = Fin r \<and> Max (set xs) \<le> r) \<and>
      ((\<forall>x\<in>set xs. x = c) \<longrightarrow> rc_logsumexp m v N = Fin (c + ln (real N)))) \<and>
   ((\<forall>i<N. m (v + i) = NInf) \<longrightarrow> rc_logsumexp m v N = NInf)"
proof (intro conjI impI)
  assume a: "1 \<le> N \<and> read_block m v N = map Fin xs"
  then have len: "length xs = N"
    by (metis length_map read_block_def diff_zero length_upt)
  then have ne: "xs \<noteq> []" using a by auto
  show "\<exists>r. rc_logsumexp m v N = Fin r \<and> Max (set xs) \<le> r"
    using logsumexp_ge_max [OF ne] a by (simp add: rc_logsumexp_def)
  assume "\<forall>x\<in>set xs. x = c"
  then have "xs = replicate N c"
    using len replicate_length_same [of xs c] by auto
  then show "rc_logsumexp m v N = Fin (c + ln (real N))"
    using a logsumexp_replicate [of N c] by (simp add: rc_logsumexp_def)
next
  assume "\<forall>i<N. m (v + i) = NInf"
  then have "list_all (\<lambda>x. x = NInf) (read_block m v N)"
    by (simp add: read_block_def list_all_iff)
  then show "rc_logsumexp m v N = NInf"
    unfolding rc_logsumexp_def by (rule logsumexp_all_NInf)
qed

theorem rc_logsumexp_spec_witness:
  "rc_logsumexp (\<lambda>a. Fin (- 1)) 0 3 = Fin (- 1 + ln 3) \<and> rc_logsumexp (\<lambda>a. NInf) 0 3 = NInf"
  using rc_logsumexp_spec [of 3 "\<lambda>a. Fin (- 1)" 0 "[- 1, - 1, - 1]" "- 1"]
    rc_logsumexp_spec [of 3 "\<lambda>a. NInf" 0 "[]" 0]
  by (simp add: read_block_def upt_rec)

text \<open>
  Claim C2. When the scratch buffer shares no element with \<^verbatim>\<open>f_i\<close>, \<^verbatim>\<open>b_K_i\<close> and
  \<^verbatim>\<open>f_K\<close>, and \<^verbatim>\<open>f_K\<close> none with \<^verbatim>\<open>f_i\<close> and \<^verbatim>\<open>b_K_i\<close>, then for every
  thermodynamic state \<open>K < n_therm_states\<close> the kernel \<^verbatim>\<open>rc_wham_fk\<close> leaves in
  \<^verbatim>\<open>f_K[K]\<close> the negative log-sum-exp, over all \<open>i < n_markov_states\<close>, of
  \<open>-(b_K_i[K * n_markov_states + i] + f_i[i])\<close>, read from the memory at the call;
  and it changes no memory cell outside \<^verbatim>\<open>f_K\<close> and the scratch buffer.
\<close>

theorem rc_wham_fk_spec:
  assumes "apart scratch M f_i M" and "apart scratch M b_K_i (T * M)"
    and "apart scratch M f_K T" and "apart f_K T f_i M" and "apart f_K T b_K_i (T * M)"
  shows "(\<forall>K<T. rc_wham_fk f_i b_K_i T M scratch f_K m (f_K + K) =
            fneg (logsumexp (map (\<lambda>i. fneg (fadd (m (b_K_i + (K * M + i))) (m (f_i + i)))) [0..<M]))) \<and>
         (\<forall>a. \<not> (f_K \<le> a \<and> a < f_K + T) \<and> \<not> (scratch \<le> a \<and> a < scratch + M) \<longrightarrow>
            rc_wham_fk f_i b_K_i T M scratch f_K m a = m a)"
  unfolding rc_wham_fk_closed [OF assms] fk_term_def by auto

theorem rc_wham_fk_spec_witness:
  "apart 4 2 0 2 \<and> apart 4 2 2 (1 * 2) \<and> apart 4 2 6 1 \<and> apart 6 1 0 2 \<and> apart 6 1 2 (1 * 2) \<and>
   rc_wham_fk 0 2 1 2 4 6 (\<lambda>a. Fin 0) 6 = Fin (- ln 2) \<and>
   rc_wham_fk 0 2 1 2 4 6 (\<lambda>a. Fin 0) 1 = Fin 0"
proof -
  have ap: "apart 4 2 0 2" "apart 4 2 2 (1 * 2)" "apart 4 2 6 1" "apart 6 1 0 2" "apart 6 1 2 (1 * 2)"
    by (simp_all add: apart_def)
  have up: "[0..<2] = [0, Suc 0]"
    by (simp add: upt_rec)
  show ?thesis
    using rc_wham_fk_spec [OF ap, of "\<lambda>a. Fin 0"] ap
    by (simp add: up logsumexp_pair_zero)
qed

text \<open>
  Claim C3, as stated, gives \<^verbatim>\<open>f_i[i]\<close> as the log-sum-exp over \<open>K\<close> of
  \<open>log_N_K[K] + f_K[K] - b_K_i[K, i]\<close>. The kernel subtracts \<^verbatim>\<open>log_N_i[i]\<close> from that
  log-sum-exp: with one state of each kind, all inputs 0 and \<^verbatim>\<open>log_N_i[0] = 1\<close>, the
  kernel stores \<open>-1\<close> where the claim says 0.
\<close>

theorem rc_wham_fi_omits_count_counterexample:
  "rc_wham_fi 0 1 2 3 1 1 4 5 fi_example (5 + 0) \<noteq>
     logsumexp (map (\<lambda>K. fsub (fadd (fi_example (0 + K)) (fi_example (2 + K)))
                                 (fi_example (3 + (K * 1 + 0)))) [0..<1])"
proof -
  have ap: "apart 4 1 0 1" "apart 4 1 3 (1 * 1)" "apart 4 1 2 1" "apart 4 1 1 1" "apart 4 1 5 1"
    "apart 5 1 0 1" "apart 5 1 3 (1 * 1)" "apart 5 1 2 1" "apart 5 1 1 1"
    by (simp_all add: apart_def)
  show ?thesis
    unfolding rc_wham_fi_closed [OF ap]
    by (simp add: fi_term_def fi_example_def fsub_def logsumexp_single)
qed

text \<open>
  Claim C3, amended. When the scratch buffer shares no element with the five
  other arrays, and \<^verbatim>\<open>f_i\<close> none with the four input arrays, then for every
  configurational state \<open>i < n_markov_states\<close> the kernel \<^verbatim>\<open>rc_wham_fi\<close> leaves in
  \<^verbatim>\<open>f_i[i]\<close> the log-sum-exp, over all \<open>K < n_therm_states\<close>, of
  \<open>log_N_K[K] - b_K_i[K * n_markov_states + i] + f_K[K]\<close>, minus \<^verbatim>\<open>log_N_i[i]\<close>.
\<close>

theorem rc_wham_fi_spec:
  assumes "apart scratch T log_N_K T" and "apart scratch T b_K_i (T * M)"
    and "apart scratch T f_K T" and "apart scratch T log_N_i M" and "apart scratch T f_i M"
    and "apart f_i M log_N_K T" and "apart f_i M b_K_i (T * M)"
    and "apart f_i M f_K T" and "apart f_i M log_N_i M"
  shows "\<forall>i<M. rc_wham_fi log_N_K log_N_i f_K b_K_i T M scratch f_i m (f_i + i) =
            fsub (logsumexp (map (\<lambda>K. fadd (fsub (m (log_N_K + K)) (m (b_K_i + (K * M + i))))
                                              (m (f_K + K))) [0..<T]))
                 (m (log_N_i + i))"
  unfolding rc_wham_fi_closed [OF assms] fi_term_def by auto

theorem rc_wham_fi_spec_witness:
  "apart 4 1 0 1 \<and> apart 4 1 3 (1 * 1) \<and> apart 4 1 2 1 \<and> apart 4 1 1 1 \<and> apart 4 1 5 1 \<and>
   apart 5 1 0 1 \<and> apart 5 1 3 (1 * 1) \<and> apart 5 1 2 1 \<and> apart 5 1 1 1 \<and>
   rc_wham_fi 0 1 2 3 1 1 4 5 fi_example 5 = Fin (- 1)"
proof -
  have ap: "apart 4 1 0 1" "apart 4 1 3 (1 * 1)" "apart 4 1 2 1" "apart 4 1 1 1" "apart 4 1 5 1"
    "apart 5 1 0 1" "apart 5 1 3 (1 * 1)" "apart 5 1 2 1" "apart 5 1 1 1"
    by (simp_all add: apart_def)
  show ?thesis
    using rc_wham_fi_spec [OF ap, of fi_example] ap
    by (simp add: fi_example_def fsub_def logsumexp_single)
qed

text \<open>
  Claim C4. When the scratch buffer shares no element with \<^verbatim>\<open>f_i\<close>,
  \<^verbatim>\<open>rc_wham_normalize\<close> adds the one value \<open>shift = logsumexp(-f_i)\<close> to every
  entry of \<^verbatim>\<open>f_i\<close>, in place, and changes no cell outside \<^verbatim>\<open>f_i\<close> and the scratch
  buffer; and when that log-sum-exp is finite, the sum over \<open>i\<close> of
  \<open>exp(-f_i[i])\<close> after the call is 1 (in exact arithmetic).
\<close>

theorem rc_wham_normalize_spec:
  assumes "apart scratch n f_i n"
  shows "(\<forall>i<n. rc_wham_normalize f_i n scratch m (f_i + i) =
            fadd (m (f_i + i)) (logsumexp (map (\<lambda>i. fneg (m (f_i + i))) [0..<n]))) \<and>
         (\<forall>a. \<not> (f_i \<le> a \<and> a < f_i + n) \<and> \<not> (scratch \<le> a \<and> a < scratch + n) \<longrightarrow>
            rc_wham_normalize f_i n scratch m a = m a) \<and>
         (\<forall>s. logsumexp (map (\<lambda>i. fneg (m (f_i + i))) [0..<n]) = Fin s \<longrightarrow>
            fsum (map (\<lambda>i. fexp (fneg (rc_wham_normalize f_i n scratch m (f_i + i)))) [0..<n]) = Fin 1)"
  using normalize_at [OF assms] normalize_outside [OF assms] normalize_sum_one [OF assms]
  by blast

theorem rc_wham_normalize_spec_witness:
  "apart 2 2 0 2 \<and>
   logsumexp (map (\<lambda>i. fneg ((\<lambda>a. Fin 0) (0 + i))) [0..<2]) = Fin (ln 2) \<and>
   rc_wham_normalize 0 2 2 (\<lambda>a. Fin 0) 0 = Fin (ln 2) \<and>
   rc_wham_normalize 0 2 2 (\<lambda>a. Fin 0) 1 = Fin (ln 2) \<and>
   fsum (map (\<lambda>i. fexp (fneg (rc_wham_normalize 0 2 2 (\<lambda>a. Fin 0) (0 + i)))) [0..<2]) = Fin 1"
proof -
  have ap: "apart 2 2 0 2"
    by (simp add: apart_def)
  have up: "[0..<2] = [0, Suc 0]"
    by (simp add: upt_rec)
  have l: "logsumexp (map (\<lambda>i. fneg ((\<lambda>a. Fin 0) (0 + i))) [0..<2]) = Fin (ln 2)"
    by (simp add: up logsumexp_pair_zero)
  note th = rc_wham_normalize_spec [OF ap, of "\<lambda>a. Fin 0"]
  have a: "rc_wham_normalize 0 2 2 (\<lambda>a. Fin 0) (0 + i) = Fin (ln 2)" if "i < 2" for i
    using th that unfolding l by simp
  have s: "fsum (map (\<lambda>i. fexp (fneg (rc_wham_normalize 0 2 2 (\<lambda>a. Fin 0) (0 + i)))) [0..<2]) = Fin 1"
    using th l by blast
  show ?thesis
    using ap l a [of 0] a [of 1] s by simp
qed

text \<open>
  Claim C7. \<^verbatim>\<open>rc_wham_normalize\<close> is idempotent: when the log-sum-exp of \<open>-f_i\<close> is
  finite, a second call leaves every cell outside the scratch buffer as the
  first call left it, and the shift of the second call is 0 (in exact
  arithmetic). The scratch buffer holds no result: after each call it holds
  the negated entries that the call found.
\<close>

theorem rc_wham_normalize_idempotent:
  assumes "apart scratch n f_i n"
    and "logsumexp (map (\<lambda>i. fneg (m (f_i + i))) [0..<n]) = Fin s"
  shows "(\<forall>a. \<not> (scratch \<le> a \<and> a < scratch + n) \<longrightarrow>
            rc_wham_normalize f_i n scratch (rc_wham_normalize f_i n scratch m) a =
            rc_wham_normalize f_i n scratch m a) \<and>
         logsumexp (map (\<lambda>i. fneg (rc_wham_normalize f_i n scratch m (f_i + i))) [0..<n]) = Fin 0"
  using normalize_idempotent [OF assms] normalize_second_shift [OF assms] by blast

theorem rc_wham_normalize_idempotent_witness:
  "apart 2 2 0 2 \<and>
   logsumexp (map (\<lambda>i. fneg ((\<lambda>a. Fin 0) (0 + i))) [0..<2]) = Fin (ln 2) \<and>
   rc_wham_normalize 0 2 2 (rc_wham_normalize 0 2 2 (\<lambda>a. Fin 0)) 0 =
     rc_wham_normalize 0 2 2 (\<lambda>a. Fin 0) 0 \<and>
   rc_wham_normalize 0 2 2 (rc_wham_normalize 0 2 2 (\<lambda>a. Fin 0)) 1 =
     rc_wham_normalize 0 2 2 (\<lambda>a. Fin 0) 1"
proof -
  have ap: "apart 2 2 0 2"
    by (simp add: apart_def)
  have up: "[0..<2] = [0, Suc 0]"
    by (simp add: upt_rec)
  have l: "logsumexp (map (\<lambda>i. fneg ((\<lambda>a. Fin 0) (0 + i))) [0..<2]) = Fin (ln 2)"
    by (simp add: up logsumexp_pair_zero)
  show ?thesis
    using rc_wham_normalize_idempotent [OF ap l] ap l
    by simp
qed

text \<open>
  Claim C9. For each of the three kernels, two calls that differ only in the
  initial contents of the scratch buffer leave the same value in every memory
  cell outside the scratch buffer, provided the scratch buffer shares no
  element with the other arrays of the call (and the output array none with
  the inputs).
\<close>

theorem scratch_contents_irrelevant:
  "(apart scratch T log_N_K T \<and> apart scratch T b_K_i (T * M) \<and> apart scratch T f_K T \<and>
    apart scratch T log_N_i M \<and> apart scratch T f_i M \<and> apart f_i M log_N_K T \<and>
    apart f_i M b_K_i (T * M) \<and> apart f_i M f_K T \<and> apart f_i M log_N_i M \<and>
    length vs \<le> T \<and> \<not> (scratch \<le> a \<and> a < scratch + T) \<longrightarrow>
      rc_wham_fi log_N_K log_N_i f_K b_K_i T M scratch f_i (overwrite m scratch vs) a =
      rc_wham_fi log_N_K log_N_i f_K b_K_i T M scratch f_i m a) \<and>
   (apart scratch M f_i M \<and> apart scratch M b_K_i (T * M) \<and> apart scratch M f_K T \<and>
    apart f_K T f_i M \<and> apart f_K T b_K_i (T * M) \<and>
    length vs \<le> M \<and> \<not> (scratch \<le> a \<and> a < scratch + M) \<longrightarrow>
      rc_wham_fk f_i b_K_i T M scratch f_K (overwrite m scratch vs) a =
      rc_wham_fk f_i b_K_i T M scratch f_K m a) \<and>
   (apart scratch M f_i M \<and> length vs \<le> M \<and> \<not> (scratch \<le> a \<and> a < scratch + M) \<longrightarrow>
      rc_wham_normalize f_i M scratch (overwrite m scratch vs) a =
      rc_wham_normalize f_i M scratch m a)"
  using rc_wham_fi_scratch [of scratch T log_N_K b_K_i M f_K log_N_i f_i vs a m]
    rc_wham_fk_scratch [of scratch M f_i b_K_i T f_K vs a m]
    rc_wham_normalize_scratch [of scratch M f_i vs a m]
  by blast

theorem scratch_contents_irrelevant_witness:
  "rc_wham_fi 0 1 2 3 1 1 4 5 (overwrite fi_example 4 [Fin 7]) 5 =
     rc_wham_fi 0 1 2 3 1 1 4 5 fi_example 5 \<and>
   rc_wham_fk 0 2 1 2 4 6 (overwrite (\<lambda>a. Fin 0) 4 [Fin 7, NaN]) 6 =
     rc_wham_fk 0 2 1 2 4 6 (\<lambda>a. Fin 0) 6 \<and>
   rc_wham_normalize 0 2 4 (overwrite (\<lambda>a. Fin 0) 4 [Fin 7, NaN]) 1 =
     rc_wham_normalize 0 2 4 (\<lambda>a. Fin 0) 1"
proof -
  have 1: "rc_wham_fi 0 1 2 3 1 1 4 5 (overwrite fi_example 4 [Fin 7]) 5 =
     rc_wham_fi 0 1 2 3 1 1 4 5 fi_example 5"
    using scratch_contents_irrelevant [of 4 1 0 3 1 2 1 5 "[Fin 7]" 5 fi_example]
    by (simp add: apart_def)
  have 2: "rc_wham_fk 0 2 1 2 4 6 (overwrite (\<lambda>a. Fin 0) 4 [Fin 7, NaN]) 6 =
     rc_wham_fk 0 2 1 2 4 6 (\<lambda>a. Fin 0) 6"
    using scratch_contents_irrelevant [of 4 1 0 2 2 6 0 0 "[Fin 7, NaN]" 6 "\<lambda>a. Fin 0"]
    by (simp add: apart_def)
  have 3: "rc_wham_normalize 0 2 4 (overwrite (\<lambda>a. Fin 0) 4 [Fin 7, NaN]) 1 =
     rc_wham_normalize 0 2 4 (\<lambda>a. Fin 0) 1"
    using scratch_contents_irrelevant [of 4 1 0 2 2 6 0 0 "[Fin 7, NaN]" 1 "\<lambda>a. Fin 0"]
    by (simp add: apart_def)
  show ?thesis
    using 1 2 3 by blast
qed

section \<open>The driver: the loop and the store\<close>

lemma loop_body_alt:
  "loop_body svc callback maxiter maxerr err_out L m s =
     (if \<not> c_contiguous (dmat (heap s) ! bias_weight_sequence_ref L) then Inl (ValueError, heap s)
      else
      let w = new_weights svc L (heap s);
          old = old_weights svc L (heap s)
      in case np_max (relative_change w old) of
           None \<Rightarrow> Inl (ValueError, updated svc L (heap s))
         | Some err \<Rightarrow>
            (let called = call_callback callback (cb_state s)
                    \<lparr>iteration_step = m, cb_therm_weights = w, cb_old_therm_weights = old,
                     cb_delta_relative_therm_weights = relative_change w old,
                     cb_err = err, cb_maxerr = maxerr, cb_maxiter = maxiter\<rparr>
             in case fst called of
                  Raised e \<Rightarrow> Inl (CallbackError e, updated svc L (heap s))
                | _ \<Rightarrow>
                   (case np_max (tolerance_excess maxerr w old) of
                      None \<Rightarrow> Inl (ValueError, updated svc L (heap s))
                    | Some worst \<Rightarrow>
                        Inr \<lparr>heap = (if flt worst (Fin 0) then updated svc L (heap s)
                                      else (updated svc L (heap s))
                                             \<lparr>dvec := (dvec (updated svc L (heap s)))
                                                [old_therm_weights_ref L := write_back old w]\<rparr>),
                             err_traj = (if err_count s + 1 = err_out then err_traj s @ [err]
                                         else err_traj s),
                             err_count = (if err_count s + 1 = err_out then 0
                                          else err_count s + 1),
                             stop = (if flt worst (Fin 0) then True
                                     else (stop s \<or> fst called = CallbackInterrupt)),
                             cb_state = snd called, passes = Suc (passes s),
                             errs = errs s @ [err]\<rparr>)))"
proof (cases "c_contiguous (dmat (heap s) ! bias_weight_sequence_ref L)")
  case True
  show ?thesis
    unfolding loop_body_def update_therm_weights_def new_weights_def old_weights_def updated_def
      Let_def
    by (simp only: True if_True not_True_eq_False if_False option.case)
next
  case False
  show ?thesis
    unfolding loop_body_def update_therm_weights_def Let_def
    by (simp only: False if_False not_False_eq_True if_True option.case)
qed

lemma loop_body_Inr:
  assumes "loop_body svc callback maxiter maxerr err_out L m s = Inr s'"
  shows "\<exists>err worst.
     c_contiguous (dmat (heap s) ! bias_weight_sequence_ref L) \<and>
     np_max (relative_change (new_weights svc L (heap s)) (old_weights svc L (heap s))) = Some err \<and>
     np_max (tolerance_excess maxerr (new_weights svc L (heap s)) (old_weights svc L (heap s))) = Some worst \<and>
     (\<forall>e. fst (observed svc callback maxiter maxerr L m s) \<noteq> Raised e) \<and>
     heap s' = (if flt worst (Fin 0) then updated svc L (heap s)
                else (updated svc L (heap s))\<lparr>dvec := (dvec (updated svc L (heap s)))[old_therm_weights_ref L :=
                        write_back (old_weights svc L (heap s)) (new_weights svc L (heap s))]\<rparr>) \<and>
     err_traj s' = (if err_count s + 1 = err_out then err_traj s @ [err] else err_traj s) \<and>
     err_count s' = (if err_count s + 1 = err_out then 0 else err_count s + 1) \<and>
     stop s' = (flt worst (Fin 0) \<or> stop s \<or>
                  fst (observed svc callback maxiter maxerr L m s) = CallbackInterrupt) \<and>
     cb_state s' = snd (observed svc callback maxiter maxerr L m s) \<and>
     passes s' = Suc (passes s) \<and> errs s' = errs s @ [err]"
proof -
  have c: "c_contiguous (dmat (heap s) ! bias_weight_sequence_ref L)"
    using assms unfolding loop_body_alt by (simp split: if_splits)
  show ?thesis
    using assms c
    unfolding loop_body_alt observed_def Let_def
    by (auto split: option.splits cb_outcome.splits)
qed

lemma every_nth_Nil: "every_nth k [] = []"
  by (simp add: every_nth_def)

lemma every_nth_snoc:
  "every_nth k (xs @ [x]) =
     (if k dvd Suc (length xs) then every_nth k xs @ [x] else every_nth k xs)"
proof -
  have m: "map (\<lambda>j. (xs @ [x]) ! (j - 1)) (filter (\<lambda>j. k dvd j) [1..<Suc (length xs)]) =
           map (\<lambda>j. xs ! (j - 1)) (filter (\<lambda>j. k dvd j) [1..<Suc (length xs)])"
    by (rule map_cong) (auto simp: nth_append)
  have "[1..<Suc (Suc (length xs))] = [1..<Suc (length xs)] @ [Suc (length xs)]"
    by simp
  then show ?thesis
    unfolding every_nth_def using m by (simp del: upt_Suc)
qed

lemma recorded_step:
  assumes rec: "recorded err_out s"
    and lb: "loop_body svc callback maxiter maxerr err_out L m s = Inr s'"
  shows "recorded err_out s'"
proof -
  from loop_body_Inr [OF lb] obtain err where
    t: "err_traj s' = (if err_count s + 1 = err_out then err_traj s @ [err] else err_traj s)"
    and c: "err_count s' = (if err_count s + 1 = err_out then 0 else err_count s + 1)"
    and p: "passes s' = Suc (passes s)" and e: "errs s' = errs s @ [err]"
    by blast
  show ?thesis
  proof (cases "0 < err_out")
    case True
    define k where "k = nat err_out"
    have k: "0 < k" "err_out = int k" using True by (simp_all add: k_def)
    have cnt: "err_count s = int (passes s mod k)"
      using rec True by (simp add: recorded_def k_def)
    have hit: "(err_count s + 1 = err_out) \<longleftrightarrow> k dvd Suc (passes s)"
    proof -
      have "(err_count s + 1 = err_out) \<longleftrightarrow> Suc (passes s mod k) = k"
        unfolding cnt k(2) by linarith
      also have "\<dots> \<longleftrightarrow> Suc (passes s) mod k = 0"
        using k(1) by (auto simp: mod_Suc)
      finally show ?thesis by (simp add: dvd_eq_mod_eq_0)
    qed
    have c': "err_count s' = int (passes s' mod k)"
    proof (cases "k dvd Suc (passes s)")
      case True
      then show ?thesis using c hit p by (simp add: dvd_eq_mod_eq_0)
    next
      case False
      then have "Suc (passes s mod k) \<noteq> k"
        using k(1) by (auto simp: dvd_eq_mod_eq_0 mod_Suc)
      then show ?thesis using c hit p False cnt by (simp add: mod_Suc)
    qed
    have "err_traj s' = every_nth k (errs s')"
      using rec t hit unfolding e every_nth_snoc recorded_def k_def by simp
    then show ?thesis
      using rec c' p e True by (simp add: recorded_def k_def)
  next
    case False
    then have "nat err_out = 0" by simp
    moreover have "err_count s + 1 \<noteq> err_out"
      using rec False by (simp add: recorded_def)
    ultimately show ?thesis
      using rec t c p e False by (simp add: recorded_def every_nth_snoc)
  qed
qed

lemma run_loop_invariant:
  assumes step: "\<And>m s s'. P s \<Longrightarrow> body m s = Inr s' \<Longrightarrow> P s'"
  shows "P s \<Longrightarrow> run_loop body ms s = Inr s' \<Longrightarrow> P s'"
proof (induction ms arbitrary: s)
  case Nil
  then show ?case by simp
next
  case (Cons m ms)
  show ?case
  proof (cases "body m s")
    case (Inl e)
    then show ?thesis using Cons.prems by simp
  next
    case (Inr s1)
    have P1: "P s1" using Cons.prems(1) Inr by (rule step)
    show ?thesis
    proof (cases "stop s1")
      case True
      then show ?thesis using Cons.prems Inr P1 by simp
    next
      case False
      then have "run_loop body ms s1 = Inr s'" using Cons.prems Inr by simp
      then show ?thesis using Cons.IH P1 by blast
    qed
  qed
qed

lemma estimate_Inr:
  assumes "estimate svc h0 tsc bes css maxiter maxerr te err_out callback cbs = Inr res"
  shows "\<exists>L h s. estimate_setup h0 tsc bes css te = Inr (L, h) \<and>
           run_loop (loop_body svc callback maxiter maxerr err_out L) (py_range maxiter)
             (initial_state h cbs) = Inr s \<and>
           res = estimate_finish svc bes css err_out L s"
proof (cases "estimate_setup h0 tsc bes css te")
  case (Inl e)
  then show ?thesis using assms by (simp add: estimate_def)
next
  case (Inr p)
  obtain L h where p: "p = (L, h)" by (cases p)
  show ?thesis
  proof (cases "run_loop (loop_body svc callback maxiter maxerr err_out L) (py_range maxiter)
             (initial_state h cbs)")
    case (Inl e)
    then show ?thesis using assms Inr p by (simp add: estimate_def)
  next
    case run: (Inr s)
    have "res = estimate_finish svc bes css err_out L s"
      using assms Inr p run by (simp add: estimate_def)
    then show ?thesis using Inr p run by blast
  qed
qed

lemma estimate_finish_simps:
  "res_err_traj (estimate_finish svc bes css err_out L s) =
     (if err_out = 0 then None else Some (err_traj s))"
  "res_loop (estimate_finish svc bes css err_out L s) = s"
  "res_therm_weights (estimate_finish svc bes css err_out L s) = therm_weights_ref L"
  unfolding estimate_finish_def Let_def by (simp_all split: prod.splits)

lemma extends_refl: "extends h h"
  by (simp add: extends_def)

lemma take_eq_length: "take (length ys) xs = ys \<Longrightarrow> length ys \<le> length xs"
proof -
  assume "take (length ys) xs = ys"
  then have "length (take (length ys) xs) = length ys" by simp
  then show ?thesis by simp
qed

lemma take_eq_nth: "take (length ys) xs = ys \<Longrightarrow> r < length ys \<Longrightarrow> xs ! r = ys ! r"
proof -
  assume a: "take (length ys) xs = ys" and r: "r < length ys"
  have "take (length ys) xs ! r = xs ! r" using r by (rule nth_take)
  then show ?thesis by (simp only: a)
qed

lemma extends_length:
  assumes "extends h0 h"
  shows "length (ivec h0) \<le> length (ivec h)" "length (dvec h0) \<le> length (dvec h)"
    "length (dmat h0) \<le> length (dmat h)"
  using assms unfolding extends_def by (simp_all add: take_eq_length)

lemma extends_nth:
  assumes "extends h0 h"
  shows "r < length (ivec h0) \<Longrightarrow> ivec h ! r = ivec h0 ! r"
    "r < length (dvec h0) \<Longrightarrow> dvec h ! r = dvec h0 ! r"
    "r < length (dmat h0) \<Longrightarrow> dmat h ! r = dmat h0 ! r"
  using assms unfolding extends_def by (simp_all add: take_eq_nth)

lemma extends_new_ivec: "extends h0 h \<Longrightarrow> extends h0 (snd (new_ivec a h))"
  using extends_length [of h0 h] by (simp add: extends_def new_ivec_def)

lemma extends_new_dvec: "extends h0 h \<Longrightarrow> extends h0 (snd (new_dvec a h))"
  using extends_length [of h0 h] by (simp add: extends_def new_dvec_def)

lemma extends_new_dmat: "extends h0 h \<Longrightarrow> extends h0 (snd (new_dmat a h))"
  using extends_length [of h0 h] by (simp add: extends_def new_dmat_def)

lemma extends_dvec_update:
  "extends h0 h \<Longrightarrow> length (dvec h0) \<le> r \<Longrightarrow> extends h0 (h\<lparr>dvec := (dvec h)[r := v]\<rparr>)"
  by (simp add: extends_def)

lemma extends_set_dvec:
  "extends h0 h \<Longrightarrow> length (dvec h0) \<le> r \<Longrightarrow> extends h0 (set_dvec r v h)"
  by (simp add: extends_def set_dvec_def)

lemma extends_set_dmat:
  "extends h0 h \<Longrightarrow> length (dmat h0) \<le> r \<Longrightarrow> extends h0 (set_dmat r v h)"
  by (simp add: extends_def set_dmat_def)

lemma estimate_setup_None:
  "estimate_setup h0 tsc bes css None =
     (let counts = map astype_intc (ivec h0 ! tsc);
          T = length (ivec h0 ! tsc);
          n = length (dvec h0);
          iv = ivec h0 @ [counts]
      in case np_max_int (iv ! css) of
           None \<Rightarrow> Inl (h0\<lparr>ivec := iv\<rparr>)
         | Some c \<Rightarrow>
             (let bw = np_exp_neg (dmat h0 ! bes);
                  dv = dvec h0 @ [map np_log_int counts, replicate T (Fin 0), replicate T (Fin 1),
                         replicate T (Fin 0), replicate T (Fin 1)]
              in if 1 + c < 0
                 then Inl (h0\<lparr>ivec := iv, dvec := dv, dmat := dmat h0 @ [bw]\<rparr>)
                 else Inr (\<lparr>T_dim = T, M_dim = 1 + c,
                          therm_state_counts_ref = length (ivec h0),
                          log_therm_state_counts_ref = n,
                          therm_energies_ref = n + 1,
                          therm_weights_ref = n + 2,
                          bias_weight_sequence_ref = length (dmat h0),
                          old_therm_energies_ref = n + 3,
                          old_therm_weights_ref = n + 4,
                          scratch_M_ref = n + 5, scratch_T_ref = n + 6\<rparr>,
                       h0\<lparr>ivec := iv,
                          dvec := dv @ [replicate (nat (1 + c)) (Fin 0), replicate T (Fin 0)],
                          dmat := dmat h0 @ [bw]\<rparr>)))"
  unfolding estimate_setup_def new_ivec_def new_dvec_def new_dmat_def Let_def
  by (simp add: nth_append split: option.splits)

lemma estimate_setup_Some:
  assumes e: "e < length (dvec h0)"
  shows "estimate_setup h0 tsc bes css (Some e) =
     (let counts = map astype_intc (ivec h0 ! tsc);
          T = length (ivec h0 ! tsc);
          n = length (dvec h0);
          iv = ivec h0 @ [counts]
      in case np_max_int (iv ! css) of
           None \<Rightarrow> Inl (h0\<lparr>ivec := iv\<rparr>)
         | Some c \<Rightarrow>
             (let bw = np_exp_neg (dmat h0 ! bes);
                  w = map (\<lambda>x. fexp (fneg x)) (dvec h0 ! e);
                  dv = dvec h0 @ [map np_log_int counts, w, dvec h0 ! e, w]
              in if 1 + c < 0
                 then Inl (h0\<lparr>ivec := iv, dvec := dv, dmat := dmat h0 @ [bw]\<rparr>)
                 else Inr (\<lparr>T_dim = T, M_dim = 1 + c,
                          therm_state_counts_ref = length (ivec h0),
                          log_therm_state_counts_ref = n,
                          therm_energies_ref = e,
                          therm_weights_ref = n + 1,
                          bias_weight_sequence_ref = length (dmat h0),
                          old_therm_energies_ref = n + 2,
                          old_therm_weights_ref = n + 3,
                          scratch_M_ref = n + 4, scratch_T_ref = n + 5\<rparr>,
                       h0\<lparr>ivec := iv,
                          dvec := dv @ [replicate (nat (1 + c)) (Fin 0), replicate T (Fin 0)],
                          dmat := dmat h0 @ [bw]\<rparr>)))"
  unfolding estimate_setup_def new_ivec_def new_dvec_def new_dmat_def Let_def
  using e by (simp add: nth_append split: option.splits)

lemma estimate_setup_extends:
  assumes "\<And>e. te = Some e \<Longrightarrow> e < length (dvec h0)"
  shows "case estimate_setup h0 tsc bes css te of
           Inl h \<Rightarrow> extends h0 h
         | Inr (L, h) \<Rightarrow> extends h0 h \<and> local_arrays h0 L h \<and>
             dvec h ! old_therm_weights_ref L = dvec h ! therm_weights_ref L"
proof (cases te)
  case None
  show ?thesis
    unfolding None estimate_setup_None Let_def
    by (simp add: extends_def local_arrays_def nth_append split: option.splits)
next
  case (Some e)
  then have e: "e < length (dvec h0)" using assms by simp
  show ?thesis
    unfolding Some estimate_setup_Some [OF e] Let_def
    by (simp add: extends_def local_arrays_def nth_append split: option.splits)
qed

lemma length_write_back: "length (write_back buf vals) = length buf"
  by (simp add: write_back_def)

lemma write_back_same_length: "length vals = length buf \<Longrightarrow> write_back buf vals = vals"
  by (simp add: write_back_def)

lemma dvec_set_dvec: "dvec (set_dvec r v h) = (dvec h)[r := write_back (dvec h ! r) v]"
  by (simp add: set_dvec_def)

lemma ivec_set_dvec: "ivec (set_dvec r v h) = ivec h"
  by (simp add: set_dvec_def)

lemma dmat_set_dvec: "dmat (set_dvec r v h) = dmat h"
  by (simp add: set_dvec_def)

lemma length_nth_write_back:
  "length (xs[a := write_back (xs ! a) u] ! r) = length (xs ! r)"
  by (cases "a < length xs"; cases "r = a") (simp_all add: length_write_back list_update_beyond)

lemma updated_eq:
  "\<exists>scr new. updated svc L (heap s) =
      set_dvec (therm_weights_ref L) new (set_dvec (scratch_T_ref L) scr (heap s))"
  unfolding updated_def update_therm_weights_body_def Let_def case_prod_beta
  by blast

lemma updated_frame:
  shows "ivec (updated svc L (heap s)) = ivec (heap s)" and "dmat (updated svc L (heap s)) = dmat (heap s)"
    and "length (dvec (updated svc L (heap s))) = length (dvec (heap s))"
    and "r \<noteq> therm_weights_ref L \<Longrightarrow> r \<noteq> scratch_T_ref L \<Longrightarrow>
           dvec (updated svc L (heap s)) ! r = dvec (heap s) ! r"
    and "length (dvec (updated svc L (heap s)) ! r) = length (dvec (heap s) ! r)"
proof -
  obtain scr new where u: "updated svc L (heap s) =
      set_dvec (therm_weights_ref L) new (set_dvec (scratch_T_ref L) scr (heap s))"
    using updated_eq by blast
  show "ivec (updated svc L (heap s)) = ivec (heap s)" "dmat (updated svc L (heap s)) = dmat (heap s)"
    "length (dvec (updated svc L (heap s))) = length (dvec (heap s))"
    by (simp_all add: u ivec_set_dvec dmat_set_dvec dvec_set_dvec)
  show "dvec (updated svc L (heap s)) ! r = dvec (heap s) ! r"
    if "r \<noteq> therm_weights_ref L" "r \<noteq> scratch_T_ref L"
    using that by (simp add: u dvec_set_dvec)
  show "length (dvec (updated svc L (heap s)) ! r) = length (dvec (heap s) ! r)"
    unfolding u dvec_set_dvec
    by (simp only: length_nth_write_back)
qed

lemma updated_extends:
  assumes "extends h0 (heap s)" "local_arrays h0 L h"
  shows "extends h0 (updated svc L (heap s))"
proof -
  obtain scr new where u: "updated svc L (heap s) =
      set_dvec (therm_weights_ref L) new (set_dvec (scratch_T_ref L) scr (heap s))"
    using updated_eq by blast
  show ?thesis
    unfolding u using assms
    by (intro extends_set_dvec) (simp_all add: local_arrays_def)
qed

lemma updated_local_arrays:
  assumes "local_arrays h0 L (heap s)"
  shows "local_arrays h0 L (updated svc L (heap s))"
  using assms unfolding local_arrays_def
  by (simp add: updated_frame(3,5))

lemma loop_body_Inl:
  assumes "loop_body svc callback maxiter maxerr err_out L m s = Inl (e, h)"
  shows "h = heap s \<or> h = updated svc L (heap s)"
  using assms
  unfolding loop_body_alt Let_def
  by (auto split: option.splits cb_outcome.splits if_splits)

lemma loop_body_heap:
  assumes lb: "loop_body svc callback maxiter maxerr err_out L m s = Inr s'"
    and la: "local_arrays h0 L (heap s)"
  shows "local_arrays h0 L (heap s')"
    and "extends h0 (heap s) \<Longrightarrow> extends h0 (heap s')"
    and "stop s' \<and> dvec (heap s') ! old_therm_weights_ref L = dvec (heap s) ! old_therm_weights_ref L
         \<or> dvec (heap s') ! old_therm_weights_ref L = new_weights svc L (heap s)"
    and "dvec (heap s') ! therm_weights_ref L = new_weights svc L (heap s)"
    and "ivec (heap s') = ivec (heap s)" and "dmat (heap s') = dmat (heap s)"
proof -
  let ?u = "updated svc L (heap s)"
  let ?o = "old_therm_weights_ref L"
  from loop_body_Inr [OF lb] obtain worst where
    h: "heap s' = (if flt worst (Fin 0) then ?u
                else ?u\<lparr>dvec := (dvec ?u)[?o :=
                        write_back (old_weights svc L (heap s)) (new_weights svc L (heap s))]\<rparr>)"
    and st: "stop s' = (flt worst (Fin 0) \<or> stop s \<or>
                  fst (observed svc callback maxiter maxerr L m s) = CallbackInterrupt)"
    by blast
  have lu: "local_arrays h0 L ?u"
    using la by (rule updated_local_arrays)
  have len: "length (old_weights svc L (heap s)) = length (new_weights svc L (heap s))"
    using lu by (simp add: old_weights_def new_weights_def local_arrays_def)
  have wb: "write_back (old_weights svc L (heap s)) (new_weights svc L (heap s)) = new_weights svc L (heap s)"
    using len by (simp add: write_back_same_length)
  have old: "dvec ?u ! ?o = dvec (heap s) ! ?o"
    using la by (intro updated_frame(4)) (auto simp: local_arrays_def)
  show "local_arrays h0 L (heap s')"
  proof (cases "flt worst (Fin 0)")
    case True
    then show ?thesis using lu h by simp
  next
    case False
    then have hs: "dvec (heap s') = (dvec ?u)[?o := dvec ?u ! therm_weights_ref L]"
      using h wb unfolding new_weights_def by simp
    show ?thesis
      using lu unfolding local_arrays_def hs by simp
  qed
  show "extends h0 (heap s')" if "extends h0 (heap s)"
    unfolding h using updated_extends [OF that la, of svc] la
    by (auto intro!: extends_dvec_update simp: local_arrays_def)
  show "stop s' \<and> dvec (heap s') ! ?o = dvec (heap s) ! ?o
         \<or> dvec (heap s') ! ?o = new_weights svc L (heap s)"
    using lu st old unfolding h by (auto simp: wb local_arrays_def)
  show "dvec (heap s') ! therm_weights_ref L = new_weights svc L (heap s)"
    using lu unfolding h by (auto simp: new_weights_def local_arrays_def)
  show "ivec (heap s') = ivec (heap s)" "dmat (heap s') = dmat (heap s)"
    unfolding h by (simp_all add: updated_frame)
qed

lemma np_max_None: "np_max xs = None \<longleftrightarrow> xs = []"
  by (cases xs) simp_all

lemma relative_change_Nil: "relative_change w old = [] \<longleftrightarrow> w = [] \<or> old = []"
  by (cases w; cases old) (simp_all add: relative_change_def)

lemma tolerance_excess_Nil: "tolerance_excess maxerr w old = [] \<longleftrightarrow> w = [] \<or> old = []"
  by (cases w; cases old) (simp_all add: tolerance_excess_def)

lemma loop_body_returns:
  assumes "new_weights svc L (heap s) \<noteq> []" "old_weights svc L (heap s) \<noteq> []"
    and "\<And>e. fst (observed svc callback maxiter maxerr L m s) \<noteq> Raised e"
    and cc: "c_contiguous (dmat (heap s) ! bias_weight_sequence_ref L)"
  shows "\<exists>s'. loop_body svc callback maxiter maxerr err_out L m s = Inr s'"
proof -
  obtain err where err: "np_max (relative_change (new_weights svc L (heap s)) (old_weights svc L (heap s))) = Some err"
    using assms(1,2) by (cases "np_max (relative_change (new_weights svc L (heap s)) (old_weights svc L (heap s)))")
      (simp_all add: np_max_None relative_change_Nil)
  obtain worst where worst:
    "np_max (tolerance_excess maxerr (new_weights svc L (heap s)) (old_weights svc L (heap s))) = Some worst"
    using assms(1,2)
    by (cases "np_max (tolerance_excess maxerr (new_weights svc L (heap s)) (old_weights svc L (heap s)))")
      (simp_all add: np_max_None tolerance_excess_Nil)
  show ?thesis
    using err worst assms(3) cc
    unfolding loop_body_alt observed_def Let_def
    by (auto split: cb_outcome.splits)
qed

lemma loop_body_raises:
  assumes "new_weights svc L (heap s) \<noteq> []" "old_weights svc L (heap s) \<noteq> []"
    and "fst (observed svc callback maxiter maxerr L m s) = Raised e"
    and cc: "c_contiguous (dmat (heap s) ! bias_weight_sequence_ref L)"
  shows "loop_body svc callback maxiter maxerr err_out L m s = Inl (CallbackError e, updated svc L (heap s))"
proof -
  obtain err where err: "np_max (relative_change (new_weights svc L (heap s)) (old_weights svc L (heap s))) = Some err"
    using assms(1,2) by (cases "np_max (relative_change (new_weights svc L (heap s)) (old_weights svc L (heap s)))")
      (simp_all add: np_max_None relative_change_Nil)
  show ?thesis
    using err assms(3) cc
    unfolding loop_body_alt observed_def Let_def
    by (auto split: cb_outcome.splits)
qed

lemma run_loop_error_invariant:
  assumes step: "\<And>m s s'. P s \<Longrightarrow> body m s = Inr s' \<Longrightarrow> P s'"
    and err: "\<And>m s x. P s \<Longrightarrow> body m s = Inl x \<Longrightarrow> Q x"
  shows "P s \<Longrightarrow> run_loop body ms s = Inl x \<Longrightarrow> Q x"
proof (induction ms arbitrary: s)
  case Nil
  then show ?case by simp
next
  case (Cons m ms)
  show ?case
  proof (cases "body m s")
    case (Inl y)
    then have "y = x" using Cons.prems by simp
    then show ?thesis using err [OF Cons.prems(1)] Inl by simp
  next
    case (Inr s1)
    have P1: "P s1" using Cons.prems(1) Inr by (rule step)
    have "\<not> stop s1" using Cons.prems(2) Inr by (auto split: if_splits)
    then have "run_loop body ms s1 = Inl x" using Cons.prems Inr by simp
    then show ?thesis using Cons.IH P1 by blast
  qed
qed

lemma estimate_finish_store:
  assumes ex: "extends h0 (heap s)" and la: "local_arrays h0 L (heap s)"
  shows "extends h0 (res_store (estimate_finish svc bes css err_out L s))"
    and "res_therm_energies (estimate_finish svc bes css err_out L s) = length (dvec (heap s))"
proof -
  have n: "length (dvec h0) \<le> length (dvec (heap s))" "length (dmat h0) \<le> length (dmat (heap s))"
    using ex by (rule extends_length)+
  have r: "length (dvec h0) \<le> scratch_T_ref L" "length (dvec h0) \<le> scratch_M_ref L"
    using la by (simp_all add: local_arrays_def)
  show "extends h0 (res_store (estimate_finish svc bes css err_out L s))"
    unfolding estimate_finish_def Let_def case_prod_beta
    using ex n r
    by (simp add: new_dvec_def new_dmat_def)
       (intro extends_set_dmat extends_set_dvec extends_new_dvec extends_new_dmat;
        simp add: extends_def set_dvec_def)
  show "res_therm_energies (estimate_finish svc bes css err_out L s) = length (dvec (heap s))"
    unfolding estimate_finish_def Let_def case_prod_beta
    by (simp add: new_dvec_def)
qed

lemma estimate_finish_returned:
  assumes "scratch_T_ref L < length (dvec (heap s))" "scratch_M_ref L < length (dvec (heap s))"
    "log_therm_state_counts_ref L < length (dvec (heap s))"
    "scratch_T_ref L \<noteq> scratch_M_ref L"
    "log_therm_state_counts_ref L \<noteq> scratch_T_ref L" "bes < length (dmat (heap s))"
  shows "dvec (res_store (estimate_finish svc bes css err_out L s)) !
           res_therm_energies (estimate_finish svc bes css err_out L s) =
     (let u = heap s;
          fe = map (\<lambda>x. fneg (flog x)) (dvec u ! therm_weights_ref L);
          (ce, bce, scr) = mbar_get_conf_energies svc (dvec u ! log_therm_state_counts_ref L) fe
             (dmat u ! bes) (ivec u ! css) (dvec u ! scratch_T_ref L) (M_dim L);
          (scr', fe', ce', bce') = mbar_normalize svc (dvec u ! log_therm_state_counts_ref L)
             (dmat u ! bes) (dvec u ! scratch_M_ref L) fe ce bce
      in write_back fe fe')"
  unfolding estimate_finish_def Let_def case_prod_beta
  using assms
  by (simp add: new_dvec_def new_dmat_def set_dvec_def set_dmat_def nth_append)

lemma loop_preserves:
  assumes "extends h0 (heap s) \<and> local_arrays h0 L (heap s)"
    and "loop_body svc callback maxiter maxerr err_out L m s = Inr s'"
  shows "extends h0 (heap s') \<and> local_arrays h0 L (heap s')"
  using loop_body_heap(1,2) [OF assms(2)] assms(1) by blast

lemma loop_error_store:
  assumes "extends h0 (heap s) \<and> local_arrays h0 L (heap s)"
    and "loop_body svc callback maxiter maxerr err_out L m s = Inl x"
  shows "extends h0 (snd x)"
proof -
  obtain e h where x: "x = (e, h)" by (cases x)
  have "h = heap s \<or> h = updated svc L (heap s)"
    using assms(2) unfolding x by (rule loop_body_Inl)
  then show ?thesis
    using updated_extends [of h0 s L "heap s" svc] assms(1) x by auto
qed

lemma estimate_extends:
  assumes valid: "\<And>e. te = Some e \<Longrightarrow> e < length (dvec h0)"
  shows "extends h0 (final_store (estimate svc h0 tsc bes css maxiter maxerr te err_out callback cbs))"
    and "estimate svc h0 tsc bes css maxiter maxerr te err_out callback cbs = Inr res \<Longrightarrow>
           length (dvec h0) \<le> res_therm_energies res"
proof -
  let ?body = "loop_body svc callback maxiter maxerr err_out"
  note su = estimate_setup_extends [of te h0 tsc bes css, OF valid]
  show "extends h0 (final_store (estimate svc h0 tsc bes css maxiter maxerr te err_out callback cbs))"
  proof (cases "estimate_setup h0 tsc bes css te")
    case (Inl h)
    then show ?thesis using su by (simp add: estimate_def final_store_def)
  next
    case (Inr p)
    obtain L h where p: "p = (L, h)" by (cases p)
    have P0: "extends h0 (heap (initial_state h cbs)) \<and> local_arrays h0 L (heap (initial_state h cbs))"
      using su Inr p by (simp add: initial_state_def)
    show ?thesis
    proof (cases "run_loop (?body L) (py_range maxiter) (initial_state h cbs)")
      case (Inl x)
      have "extends h0 (snd x)"
        using P0 Inl
        by (rule run_loop_error_invariant [where P = "\<lambda>s. extends h0 (heap s) \<and> local_arrays h0 L (heap s)"
              and body = "?body L", rotated 2])
          (erule (1) loop_preserves, erule (1) loop_error_store)
      then show ?thesis
        using Inr p Inl by (auto simp: estimate_def final_store_def split: prod.splits)
    next
      case run: (Inr s)
      have "extends h0 (heap s) \<and> local_arrays h0 L (heap s)"
        using P0 run
        by (rule run_loop_invariant [where P = "\<lambda>s. extends h0 (heap s) \<and> local_arrays h0 L (heap s)"
              and body = "?body L", rotated])
          (erule (1) loop_preserves)
      then have "extends h0 (res_store (estimate_finish svc bes css err_out L s))"
        using estimate_finish_store(1) by blast
      then show ?thesis
        using Inr p run by (simp add: estimate_def final_store_def)
    qed
  qed
  show "length (dvec h0) \<le> res_therm_energies res"
    if "estimate svc h0 tsc bes css maxiter maxerr te err_out callback cbs = Inr res"
  proof -
    from estimate_Inr [OF that] obtain L h s where
      st: "estimate_setup h0 tsc bes css te = Inr (L, h)"
      and run: "run_loop (?body L) (py_range maxiter) (initial_state h cbs) = Inr s"
      and res: "res = estimate_finish svc bes css err_out L s"
      by blast
    have P0: "extends h0 (heap (initial_state h cbs)) \<and> local_arrays h0 L (heap (initial_state h cbs))"
      using su st by (simp add: initial_state_def)
    have P: "extends h0 (heap s) \<and> local_arrays h0 L (heap s)"
      using P0 run
      by (rule run_loop_invariant [where P = "\<lambda>s. extends h0 (heap s) \<and> local_arrays h0 L (heap s)"
            and body = "?body L", rotated])
        (erule (1) loop_preserves)
    then have "res_therm_energies res = length (dvec (heap s))"
      unfolding res using estimate_finish_store(2) by blast
    then show ?thesis
      using P extends_length(2) by simp
  qed
qed

lemma py_range_pos: "0 < maxiter \<Longrightarrow> \<exists>ms. py_range maxiter = 0 # ms"
  by (cases "nat maxiter") (simp_all add: py_range_def upt_rec)

lemma loop_pass:
  assumes la: "local_arrays h0 L (heap s)"
    and ns: "\<not> stop s"
    and lb: "loop_body svc callback maxiter maxerr err_out L m s = Inr s'"
  shows "\<exists>worst.
      np_max (tolerance_excess maxerr (new_weights svc L (heap s))
                (dvec (heap s) ! old_therm_weights_ref L)) = Some worst \<and>
      (flt worst (Fin 0) \<longrightarrow>
         stop s' \<and>
         dvec (heap s') ! old_therm_weights_ref L = dvec (heap s) ! old_therm_weights_ref L) \<and>
      (\<not> flt worst (Fin 0) \<longrightarrow>
         dvec (heap s') ! old_therm_weights_ref L = new_weights svc L (heap s) \<and>
         (stop s' \<longleftrightarrow> fst (observed svc callback maxiter maxerr L m s) = CallbackInterrupt)) \<and>
      dvec (heap s') ! therm_weights_ref L = new_weights svc L (heap s) \<and>
      run_loop (loop_body svc callback maxiter maxerr err_out L) (m # ms) s =
        (if stop s' then Inr s'
         else run_loop (loop_body svc callback maxiter maxerr err_out L) ms s') \<and>
      local_arrays h0 L (heap s')"
proof -
  let ?u = "updated svc L (heap s)"
  let ?o = "old_therm_weights_ref L"
  from loop_body_Inr [OF lb] obtain worst where
    w: "np_max (tolerance_excess maxerr (new_weights svc L (heap s)) (old_weights svc L (heap s))) =
          Some worst"
    and h: "heap s' = (if flt worst (Fin 0) then ?u
                else ?u\<lparr>dvec := (dvec ?u)[?o :=
                        write_back (old_weights svc L (heap s)) (new_weights svc L (heap s))]\<rparr>)"
    and st: "stop s' = (flt worst (Fin 0) \<or> stop s \<or>
                  fst (observed svc callback maxiter maxerr L m s) = CallbackInterrupt)"
    by blast
  have lu: "local_arrays h0 L ?u"
    using la by (rule updated_local_arrays)
  have old: "old_weights svc L (heap s) = dvec (heap s) ! ?o"
    unfolding old_weights_def using la by (intro updated_frame(4)) (auto simp: local_arrays_def)
  have len: "length (old_weights svc L (heap s)) = length (new_weights svc L (heap s))"
    using lu by (simp add: old_weights_def new_weights_def local_arrays_def)
  have wb: "write_back (old_weights svc L (heap s)) (new_weights svc L (heap s)) =
            new_weights svc L (heap s)"
    using len by (simp add: write_back_same_length)
  have o1: "dvec (heap s') ! ?o = dvec (heap s) ! ?o" if "flt worst (Fin 0)"
    using that h old by (simp add: old_weights_def)
  have o2: "dvec (heap s') ! ?o = new_weights svc L (heap s)" if "\<not> flt worst (Fin 0)"
    using that h lu by (simp add: wb local_arrays_def)
  have run: "run_loop (loop_body svc callback maxiter maxerr err_out L) (m # ms) s =
        (if stop s' then Inr s'
         else run_loop (loop_body svc callback maxiter maxerr err_out L) ms s')"
    using lb by simp
  show ?thesis
    using w [unfolded old] o1 o2 st ns run loop_body_heap(1,4) [OF lb la] by blast
qed

lemma passes_of_tail:
  "(m, s) \<in> set (passes_of body (k # ks) s0) \<Longrightarrow> (m, s) \<noteq> (k, s0) \<Longrightarrow>
     \<exists>s1. body k s0 = Inr s1 \<and> \<not> stop s1 \<and> (m, s) \<in> set (passes_of body ks s1)"
  by (cases "body k s0") (auto split: if_splits)

lemma passes_of_invariant:
  assumes step: "\<And>m s s'. P s \<Longrightarrow> body m s = Inr s' \<Longrightarrow> \<not> stop s' \<Longrightarrow> P s'"
  shows "P s0 \<Longrightarrow> (m, s) \<in> set (passes_of body ms s0) \<Longrightarrow> P s"
proof (induction ms arbitrary: s0)
  case Nil
  then show ?case by simp
next
  case (Cons k ks)
  show ?case
  proof (cases "(m, s) = (k, s0)")
    case True
    then show ?thesis using Cons.prems by simp
  next
    case False
    then obtain s1 where s1: "body k s0 = Inr s1" "\<not> stop s1" "(m, s) \<in> set (passes_of body ks s1)"
      using passes_of_tail [OF Cons.prems(2) False] by blast
    have "P s1" using Cons.prems(1) s1(1,2) by (rule step)
    then show ?thesis using Cons.IH s1(3) by blast
  qed
qed

lemma passes_of_ends:
  "(m, s) \<in> set (passes_of body ms s0) \<Longrightarrow> body m s = Inr s' \<Longrightarrow> stop s' \<Longrightarrow>
     run_loop body ms s0 = Inr s'"
proof (induction ms arbitrary: s0)
  case Nil
  then show ?case by simp
next
  case (Cons k ks)
  show ?case
  proof (cases "(m, s) = (k, s0)")
    case True
    then show ?thesis using Cons.prems by simp
  next
    case False
    then obtain s1 where s1: "body k s0 = Inr s1" "\<not> stop s1" "(m, s) \<in> set (passes_of body ks s1)"
      using passes_of_tail [OF Cons.prems(1) False] by blast
    have "run_loop body ks s1 = Inr s'"
      using Cons.IH s1(3) Cons.prems(2,3) by blast
    then show ?thesis using s1 by simp
  qed
qed

lemma passes_of_next:
  "(m, s) \<in> set (passes_of body [i..<n] s0) \<Longrightarrow> body m s = Inr s' \<Longrightarrow> \<not> stop s' \<Longrightarrow>
     (if Suc m < n then (Suc m, s') \<in> set (passes_of body [i..<n] s0)
      else run_loop body [i..<n] s0 = Inr s')"
proof (induction "n - i" arbitrary: i s0)
  case 0
  then show ?case by simp
next
  case (Suc d)
  then have i: "i < n" by simp
  then have up: "[i..<n] = i # [Suc i..<n]" by (rule upt_conv_Cons)
  show ?case
  proof (cases "(m, s) = (i, s0)")
    case True
    then have b: "body i s0 = Inr s'" using Suc.prems(2) by simp
    show ?thesis
    proof (cases "Suc i < n")
      case True
      then have "[Suc i..<n] = Suc i # [Suc (Suc i)..<n]" by (rule upt_conv_Cons)
      then show ?thesis
        using \<open>(m, s) = (i, s0)\<close> b Suc.prems(3) True unfolding up by simp
    next
      case False
      then have "[Suc i..<n] = []" by simp
      then show ?thesis
        using \<open>(m, s) = (i, s0)\<close> b Suc.prems(3) False unfolding up by simp
    qed
  next
    case False
    then obtain s1 where s1: "body i s0 = Inr s1" "\<not> stop s1"
        "(m, s) \<in> set (passes_of body [Suc i..<n] s1)"
      using passes_of_tail [OF Suc.prems(1) [unfolded up] False] by blast
    have d: "d = n - Suc i" using Suc.hyps(2) by simp
    note IH = Suc.hyps(1) [OF d s1(3) Suc.prems(2,3)]
    show ?thesis
      using IH s1(1,2) unfolding up by (auto split: if_splits)
  qed
qed

lemma passes_of_raises:
  "(m, s) \<in> set (passes_of body ms s0) \<Longrightarrow> body m s = Inl x \<Longrightarrow> run_loop body ms s0 = Inl x"
proof (induction ms arbitrary: s0)
  case Nil
  then show ?case by simp
next
  case (Cons k ks)
  show ?case
  proof (cases "(m, s) = (k, s0)")
    case True
    then show ?thesis using Cons.prems by simp
  next
    case False
    then obtain s1 where s1: "body k s0 = Inr s1" "\<not> stop s1" "(m, s) \<in> set (passes_of body ks s1)"
      using passes_of_tail [OF Cons.prems(1) False] by blast
    have "run_loop body ks s1 = Inl x"
      using Cons.IH s1(3) Cons.prems(2) by blast
    then show ?thesis using s1 by simp
  qed
qed

lemma estimate_setup_refs:
  assumes valid: "\<And>e. te = Some e \<Longrightarrow> e < length (dvec h0)"
    and su: "estimate_setup h0 tsc bes css te = Inr (L, h)"
  shows "log_therm_state_counts_ref L < length (dvec h)"
    and "log_therm_state_counts_ref L \<noteq> scratch_T_ref L"
    and "log_therm_state_counts_ref L \<noteq> old_therm_weights_ref L"
    and "length (dmat h0) \<le> length (dmat h)"
proof -
  have "log_therm_state_counts_ref L < length (dvec h) \<and>
        log_therm_state_counts_ref L \<noteq> scratch_T_ref L \<and>
        log_therm_state_counts_ref L \<noteq> old_therm_weights_ref L \<and>
        length (dmat h0) \<le> length (dmat h)"
  proof (cases te)
    case None
    show ?thesis
      using su unfolding None estimate_setup_None Let_def
      by (auto split: option.splits if_splits)
  next
    case (Some e)
    then have e: "e < length (dvec h0)" using valid by simp
    show ?thesis
      using su unfolding Some estimate_setup_Some [OF e] Let_def
      by (auto split: option.splits if_splits)
  qed
  then show "log_therm_state_counts_ref L < length (dvec h)"
    and "log_therm_state_counts_ref L \<noteq> scratch_T_ref L"
    and "log_therm_state_counts_ref L \<noteq> old_therm_weights_ref L"
    and "length (dmat h0) \<le> length (dmat h)"
    by simp_all
qed

lemma pass_store:
  assumes lb: "loop_body svc callback maxiter maxerr err_out L m s = Inr s'"
  shows "ivec (heap s') = ivec (updated svc L (heap s))"
    and "dmat (heap s') = dmat (updated svc L (heap s))"
    and "length (dvec (heap s')) = length (dvec (updated svc L (heap s)))"
    and "r \<noteq> old_therm_weights_ref L \<Longrightarrow> dvec (heap s') ! r = dvec (updated svc L (heap s)) ! r"
proof -
  from loop_body_Inr [OF lb] obtain worst where
    h: "heap s' = (if flt worst (Fin 0) then updated svc L (heap s)
                else (updated svc L (heap s))\<lparr>dvec := (dvec (updated svc L (heap s)))[old_therm_weights_ref L :=
                        write_back (old_weights svc L (heap s)) (new_weights svc L (heap s))]\<rparr>)"
    by blast
  show "ivec (heap s') = ivec (updated svc L (heap s))"
    and "dmat (heap s') = dmat (updated svc L (heap s))"
    and "length (dvec (heap s')) = length (dvec (updated svc L (heap s)))"
    unfolding h by simp_all
  show "dvec (heap s') ! r = dvec (updated svc L (heap s)) ! r" if "r \<noteq> old_therm_weights_ref L"
    unfolding h using that by simp
qed

lemma pass_reaches_callback:
  assumes la: "local_arrays h0 L (heap s)"
    and ne: "dvec (heap s) ! therm_weights_ref L \<noteq> []"
  shows "new_weights svc L (heap s) \<noteq> []" and "old_weights svc L (heap s) \<noteq> []"
proof -
  have "length (new_weights svc L (heap s)) = length (dvec (heap s) ! therm_weights_ref L)"
    unfolding new_weights_def by (rule updated_frame(5))
  then show "new_weights svc L (heap s) \<noteq> []" using ne by auto
  have "length (old_weights svc L (heap s)) = length (dvec (heap s) ! old_therm_weights_ref L)"
    unfolding old_weights_def by (rule updated_frame(5))
  then show "old_weights svc L (heap s) \<noteq> []" using ne la by (auto simp: local_arrays_def)
qed

lemma loop_keeps:
  assumes "local_arrays h0 L (heap s) \<and> dmat (heap s) = d \<and>
           length (dvec (heap s) ! therm_weights_ref L) = n"
    and lb: "loop_body svc callback maxiter maxerr err_out L m s = Inr s'"
  shows "local_arrays h0 L (heap s') \<and> dmat (heap s') = d \<and>
           length (dvec (heap s') ! therm_weights_ref L) = n"
proof -
  have "length (new_weights svc L (heap s)) = length (dvec (heap s) ! therm_weights_ref L)"
    unfolding new_weights_def by (rule updated_frame(5))
  then show ?thesis
    using assms(1) loop_body_heap(1,4,6) [OF lb, of h0] by simp
qed

lemma wrapper_raises:
  assumes su: "estimate_setup h0 tsc bes css te = Inr (L, h)"
    and it: "0 < maxiter"
    and cc: "\<not> c_contiguous (dmat h ! bias_weight_sequence_ref L)"
  shows "estimate svc h0 tsc bes css maxiter maxerr te err_out callback cbs = Inl (ValueError, h)"
proof -
  obtain ms where ms: "py_range maxiter = 0 # ms"
    using py_range_pos [OF it] by blast
  have "loop_body svc callback maxiter maxerr err_out L 0 (initial_state h cbs) = Inl (ValueError, h)"
    unfolding loop_body_alt using cc by (simp add: initial_state_def)
  then show ?thesis
    unfolding estimate_def su ms by simp
qed

lemma every_nth_map: "every_nth k (map f xs) = map f (every_nth k xs)"
  unfolding every_nth_def by (auto simp: nth_map)

lemma every_nth_length: "0 < k \<Longrightarrow> length (every_nth k xs) = length xs div k"
proof (induction xs rule: rev_induct)
  case Nil
  then show ?case by (simp add: every_nth_Nil)
next
  case (snoc x xs)
  then show ?case
    by (simp add: every_nth_snoc div_Suc dvd_eq_mod_eq_0)
qed

lemma every_nth_nth:
  "0 < k \<Longrightarrow> i < length xs div k \<Longrightarrow> every_nth k xs ! i = xs ! (k * Suc i - 1)"
proof (induction xs rule: rev_induct)
  case Nil
  then show ?case by simp
next
  case (snoc x xs)
  let ?n = "length xs"
  have le: "k * Suc i \<le> ?n" if "i < ?n div k"
  proof -
    have "Suc i \<le> ?n div k" using that by simp
    then have "k * Suc i \<le> k * (?n div k)" by (rule mult_le_mono2)
    also have "\<dots> \<le> ?n" by simp
    finally show ?thesis .
  qed
  have inner: "every_nth k xs ! i = (xs @ [x]) ! (k * Suc i - 1)" if "i < ?n div k"
  proof -
    have "k * Suc i - 1 < ?n" using le [OF that] snoc.prems(1) by (cases k) simp_all
    then show ?thesis using snoc.IH [OF snoc.prems(1) that] by (simp add: nth_append)
  qed
  show ?case
  proof (cases "k dvd Suc ?n")
    case True
    then have d: "Suc ?n div k = Suc (?n div k)"
      using snoc.prems(1) by (simp add: div_Suc dvd_eq_mod_eq_0)
    show ?thesis
    proof (cases "i < ?n div k")
      case True
      then show ?thesis
        using inner \<open>k dvd Suc ?n\<close> snoc.prems(1)
        by (simp add: every_nth_snoc nth_append every_nth_length)
    next
      case False
      then have i: "i = ?n div k" using snoc.prems(2) d by simp
      have "k * Suc i = Suc ?n"
        using True d i by (metis dvd_mult_div_cancel)
      then show ?thesis
        using True snoc.prems(1) i by (simp add: every_nth_snoc nth_append every_nth_length)
    qed
  next
    case False
    then have d: "Suc ?n div k = ?n div k"
      using snoc.prems(1) by (simp add: div_Suc dvd_eq_mod_eq_0)
    then have "i < ?n div k" using snoc.prems(2) by simp
    then show ?thesis using inner False by (simp add: every_nth_snoc)
  qed
qed

lemma run_loop_errs:
  "run_loop (loop_body svc callback maxiter maxerr err_out L) ms s0 = Inr sf \<Longrightarrow>
     map Some (errs sf) =
       map Some (errs s0) @
       map (\<lambda>(m, s). pass_err svc L s)
         (passes_of (loop_body svc callback maxiter maxerr err_out L) ms s0) \<and>
     passes sf = passes s0 + length (passes_of (loop_body svc callback maxiter maxerr err_out L) ms s0)"
proof (induction ms arbitrary: s0)
  case Nil
  then show ?case by simp
next
  case (Cons m ms)
  let ?body = "loop_body svc callback maxiter maxerr err_out L"
  show ?case
  proof (cases "?body m s0")
    case (Inl x)
    then show ?thesis using Cons.prems by simp
  next
    case (Inr s1)
    from loop_body_Inr [OF Inr] obtain err where
      e: "pass_err svc L s0 = Some err" "errs s1 = errs s0 @ [err]" "passes s1 = Suc (passes s0)"
      unfolding pass_err_def by blast
    show ?thesis
    proof (cases "stop s1")
      case True
      then have "sf = s1" using Cons.prems Inr by simp
      then show ?thesis using Inr True e by simp
    next
      case False
      then have "run_loop ?body ms s1 = Inr sf" using Cons.prems Inr by simp
      from Cons.IH [OF this] show ?thesis using Inr False e by simp
    qed
  qed
qed

lemma passes_of_index:
  "(m, s) \<in> set (passes_of (loop_body svc callback maxiter maxerr err_out L) [i..<n] s0) \<Longrightarrow>
     passes s0 = i \<Longrightarrow> passes s = m"
proof (induction "n - i" arbitrary: i s0)
  case 0
  then show ?case by simp
next
  case (Suc d)
  let ?body = "loop_body svc callback maxiter maxerr err_out L"
  from Suc have i: "i < n" by simp
  then have up: "[i..<n] = i # [Suc i..<n]" by (rule upt_conv_Cons)
  show ?case
  proof (cases "(m, s) = (i, s0)")
    case True
    then show ?thesis using Suc.prems(2) by simp
  next
    case False
    then obtain s1 where s1: "?body i s0 = Inr s1" "\<not> stop s1"
        "(m, s) \<in> set (passes_of ?body [Suc i..<n] s1)"
      using passes_of_tail [OF Suc.prems(1) [unfolded up] False] by blast
    have d: "d = n - Suc i" using Suc.hyps(2) by simp
    have "passes s1 = Suc i"
      using loop_body_Inr [OF s1(1)] Suc.prems(2) by auto
    then show ?thesis
      using Suc.hyps(1) [OF d s1(3)] by simp
  qed
qed

lemma passes_of_completed:
  "(m, s) \<in> set (passes_of body ms s0) \<Longrightarrow> run_loop body ms s0 = Inr sf \<Longrightarrow> \<exists>s'. body m s = Inr s'"
proof (cases "body m s")
  case (Inl x)
  assume "(m, s) \<in> set (passes_of body ms s0)" "run_loop body ms s0 = Inr sf"
  then show ?thesis using passes_of_raises [of m s body ms s0 x] Inl by simp
next
  case (Inr s')
  then show ?thesis by blast
qed

section \<open>The driver on the worked example\<close>

lemma astype_intc_1: "astype_intc 1 = 1"
  by (simp add: astype_intc_def)

lemma demo_setup:
  "estimate_setup demo_store 0 0 1 None = Inr (demo_locals, demo_heap [Fin 1] [Fin 1])"
  unfolding estimate_setup_None
  by (simp add: demo_store_def demo_locals_def demo_heap_def astype_intc_1 np_log_int_def
        np_exp_neg_def Let_def)

lemma demo_updated:
  "updated demo_services demo_locals (demo_heap [y] [x]) = demo_heap [fadd x (Fin 1)] [x]"
  unfolding updated_def update_therm_weights_body_def set_dvec_def
  by (simp add: demo_services_def demo_locals_def demo_heap_def write_back_def)

lemma demo_weights:
  "new_weights demo_services demo_locals (demo_heap [y] [x]) = [fadd x (Fin 1)]"
  "old_weights demo_services demo_locals (demo_heap [y] [x]) = [x]"
  unfolding new_weights_def old_weights_def demo_updated
  by (simp_all add: demo_heap_def demo_locals_def)

lemma demo_local_arrays: "local_arrays demo_store demo_locals (demo_heap [y] [x])"
  by (simp add: local_arrays_def demo_store_def demo_locals_def demo_heap_def)

lemma demo_c_contiguous:
  "c_contiguous (dmat (demo_heap w old) ! bias_weight_sequence_ref demo_locals)"
  by (simp add: c_contiguous_def demo_heap_def demo_locals_def)

lemma demo_old_update:
  "(demo_heap w old)\<lparr>dvec := (dvec (demo_heap w old))[old_therm_weights_ref demo_locals := v]\<rparr> =
     demo_heap w v"
  by (simp add: demo_heap_def demo_locals_def)

lemma demo_pass:
  assumes "0 < a" "0 < e" "e * (a + 1) < 1"
  shows "loop_body demo_services callback maxiter (Fin e) err_out demo_locals m
           \<lparr>heap = demo_heap [y] [Fin a], err_traj = traj, err_count = c, stop = False,
            cb_state = cbs, passes = p, errs = es\<rparr> =
         (case fst (call_callback callback cbs
                 \<lparr>iteration_step = m, cb_therm_weights = [Fin (a + 1)],
                  cb_old_therm_weights = [Fin a],
                  cb_delta_relative_therm_weights = [Fin (1 / (a + 1))],
                  cb_err = Fin (1 / (a + 1)), cb_maxerr = Fin e, cb_maxiter = maxiter\<rparr>) of
            Raised x \<Rightarrow> Inl (CallbackError x, demo_heap [Fin (a + 1)] [Fin a])
          | outcome \<Rightarrow>
         Inr \<lparr>heap = demo_heap [Fin (a + 1)] [Fin (a + 1)],
              err_traj = (if c + 1 = err_out then traj @ [Fin (1 / (a + 1))] else traj),
              err_count = (if c + 1 = err_out then 0 else c + 1),
              stop = (outcome = CallbackInterrupt),
              cb_state = snd (call_callback callback cbs
                 \<lparr>iteration_step = m, cb_therm_weights = [Fin (a + 1)],
                  cb_old_therm_weights = [Fin a],
                  cb_delta_relative_therm_weights = [Fin (1 / (a + 1))],
                  cb_err = Fin (1 / (a + 1)), cb_maxerr = Fin e, cb_maxiter = maxiter\<rparr>),
              passes = Suc p, errs = es @ [Fin (1 / (a + 1))]\<rparr>)"
proof -
  have d: "relative_change [Fin (a + 1)] [Fin a] = [Fin (1 / (a + 1))]"
    using assms(1) by (simp add: relative_change_def fsub_def)
  have t: "tolerance_excess (Fin e) [Fin (a + 1)] [Fin a] = [Fin (1 - e * (a + 1))]"
    using assms(1,2) by (simp add: tolerance_excess_def fsub_def abs_mult)
  have f: "\<not> 1 - e * (a + 1) < 0"
    using assms(3) by simp
  show ?thesis
    unfolding loop_body_alt Let_def
    using f
    by (simp add: demo_weights demo_updated d t demo_old_update write_back_def demo_c_contiguous
          split: cb_outcome.splits)
qed

lemma demo_finish:
  assumes "0 < w" and "heap s = demo_heap [Fin w] [Fin v]"
  shows "res_therm_energies (estimate_finish demo_services 0 1 err_out demo_locals s) = 8"
    and "dvec (res_store (estimate_finish demo_services 0 1 err_out demo_locals s)) ! 8 =
           [Fin (- ln w - 1)]"
  unfolding estimate_finish_def Let_def case_prod_beta assms(2)
  using assms(1)
  by (simp_all add: demo_services_def demo_locals_def demo_heap_def new_dvec_def new_dmat_def
        set_dvec_def set_dmat_def spec_normalize_def write_back_def logsumexp_single)

lemma py_range_2: "py_range 2 = [0, 1]"
  by (simp add: py_range_def upt_rec)

lemma demo_interrupted:
  "estimate demo_services demo_store 0 0 1 2 demo_maxerr None 0 (Some always_interrupt) () =
     Inr (estimate_finish demo_services 0 1 0 demo_locals
            \<lparr>heap = demo_heap [Fin 2] [Fin 2], err_traj = [], err_count = 1, stop = True,
             cb_state = (), passes = 1, errs = [Fin (1 / 2)]\<rparr>)"
  unfolding estimate_def demo_setup py_range_2 initial_state_def demo_maxerr_def
  by (simp add: demo_pass call_callback_def always_interrupt_def)

lemma demo_two_passes:
  "estimate demo_services demo_store 0 0 1 2 demo_maxerr None 2 (None :: (unit, string) callback option) () =
     Inr (estimate_finish demo_services 0 1 2 demo_locals
            \<lparr>heap = demo_heap [Fin 3] [Fin 3], err_traj = [Fin (1 / 3)], err_count = 0,
             stop = False, cb_state = (), passes = 2, errs = [Fin (1 / 2), Fin (1 / 3)]\<rparr>)"
  unfolding estimate_def demo_setup py_range_2 initial_state_def demo_maxerr_def
  by (simp add: demo_pass call_callback_def numeral_2_eq_2)

lemma demo_first_pass:
  "loop_body demo_services (None :: (unit, string) callback option) 2 demo_maxerr 0 demo_locals 0
     demo_state0 = Inr demo_state1"
  unfolding demo_state0_def demo_state1_def initial_state_def demo_maxerr_def
  by (simp add: demo_pass call_callback_def)

lemma demo_excess:
  "np_max (tolerance_excess demo_maxerr [Fin 2] [Fin 1]) = Some (Fin (1 - 2 / 100000000))"
  by (simp add: tolerance_excess_def demo_maxerr_def fsub_def)

lemma demo_passes:
  "passes_of (loop_body demo_services (None :: (unit, string) callback option) 2 demo_maxerr 2
       demo_locals) (py_range 2) (initial_state (demo_heap [Fin 1] [Fin 1]) ()) =
     [(0, demo_state0), (1, demo_state1)]"
  unfolding py_range_2 demo_state0_def demo_state1_def initial_state_def demo_maxerr_def
  by (simp add: demo_pass call_callback_def)

lemma demo_pass_err:
  "pass_err demo_services demo_locals demo_state0 = Some (Fin (1 / 2))"
  "pass_err demo_services demo_locals demo_state1 = Some (Fin (1 / 3))"
  unfolding pass_err_def demo_state0_def demo_state1_def initial_state_def
  by (simp_all add: demo_weights relative_change_def fsub_def)

lemma column_major_raises:
  "estimate demo_services column_major_store 0 0 1 2 demo_maxerr None 0
     (None :: (unit, string) callback option) () =
   Inl (ValueError,
        \<lparr>ivec = [[1, 1], [0, 0], [1, 1]],
         dvec = [[Fin 0, Fin 0], [Fin 0, Fin 0], [Fin 1, Fin 1], [Fin 0, Fin 0], [Fin 1, Fin 1],
                 [Fin 0], [Fin 0, Fin 0]],
         dmat = [\<lparr>shape0 = 2, shape1 = 2, entries = [Fin 0, Fin 0, Fin 0, Fin 0],
                  axes = Column_major, contiguous = True\<rparr>,
                 \<lparr>shape0 = 2, shape1 = 2, entries = [Fin 1, Fin 1, Fin 1, Fin 1],
                  axes = Column_major, contiguous = True\<rparr>]\<rparr>)"
proof -
  have su: "estimate_setup column_major_store 0 0 1 None =
     Inr (\<lparr>T_dim = 2, M_dim = 1, therm_state_counts_ref = 2, log_therm_state_counts_ref = 0,
           therm_energies_ref = 1, therm_weights_ref = 2, bias_weight_sequence_ref = 1,
           old_therm_energies_ref = 3, old_therm_weights_ref = 4, scratch_M_ref = 5,
           scratch_T_ref = 6\<rparr>,
        \<lparr>ivec = [[1, 1], [0, 0], [1, 1]],
         dvec = [[Fin 0, Fin 0], [Fin 0, Fin 0], [Fin 1, Fin 1], [Fin 0, Fin 0], [Fin 1, Fin 1],
                 [Fin 0], [Fin 0, Fin 0]],
         dmat = [\<lparr>shape0 = 2, shape1 = 2, entries = [Fin 0, Fin 0, Fin 0, Fin 0],
                  axes = Column_major, contiguous = True\<rparr>,
                 \<lparr>shape0 = 2, shape1 = 2, entries = [Fin 1, Fin 1, Fin 1, Fin 1],
                  axes = Column_major, contiguous = True\<rparr>]\<rparr>)"
    unfolding estimate_setup_None
    by (simp add: column_major_store_def astype_intc_1 np_log_int_def np_exp_neg_def Let_def
          numeral_2_eq_2)
  show ?thesis
    by (rule wrapper_raises [OF su]) (simp_all add: c_contiguous_def)
qed

section \<open>The claims about the driver\<close>

text \<open>
  Claim C1, as stated, lets the loop go on whenever the convergence test
  fails and indices remain. With a callback that raises \<^verbatim>\<open>CallbackInterrupt\<close>
  and \<open>maxiter = 2\<close>, the first pass has the new weights \<open>[2]\<close> and the old weights
  \<open>[1]\<close>; its test fails and the old weights are overwritten, and the loop
  ends after this one pass.
\<close>

theorem interrupt_ends_loop_counterexample:
  "\<not> isl (estimate demo_services demo_store 0 0 1 2 demo_maxerr None 0 (Some always_interrupt) ()) \<and>
   passes (res_loop (projr (estimate demo_services demo_store 0 0 1 2 demo_maxerr None 0
      (Some always_interrupt) ()))) = 1 \<and>
   dvec (heap (res_loop (projr (estimate demo_services demo_store 0 0 1 2 demo_maxerr None 0
      (Some always_interrupt) ())))) ! old_therm_weights_ref demo_locals = [Fin 2] \<and>
   new_weights demo_services demo_locals (demo_heap [Fin 1] [Fin 1]) = [Fin 2] \<and>
   dvec (demo_heap [Fin 1] [Fin 1]) ! old_therm_weights_ref demo_locals = [Fin 1] \<and>
   \<not> flt (the (np_max (tolerance_excess demo_maxerr [Fin 2] [Fin 1]))) (Fin 0)"
  unfolding demo_interrupted demo_excess
  by (simp add: estimate_finish_simps demo_weights) (simp add: demo_heap_def demo_locals_def)

text \<open>
  Claim C1, amended. In a call of \<^verbatim>\<open>estimate\<close>, a pass through the loop whose
  convergence test holds (the maximum over all entries of
  \<open>|new - old| - maxerr * |new|\<close> is less than 0) ends the loop and leaves the old
  weights as they are. A pass whose test fails overwrites the old weights
  with the new weights; then the loop ends if the callback raised
  \<^verbatim>\<open>CallbackInterrupt\<close> in this pass or if no index of \<^verbatim>\<open>range(maxiter)\<close> is left,
  and otherwise the next pass starts in the state that this pass has left.
\<close>

theorem convergence_test_decides:
  assumes su: "estimate_setup h0 tsc bes css te = Inr (L, h)"
    and valid: "\<forall>e. te = Some e \<longrightarrow> e < length (dvec h0)"
    and pass: "(m, s) \<in> set (passes_of (loop_body svc callback maxiter maxerr err_out L)
                  (py_range maxiter) (initial_state h cbs))"
    and lb: "loop_body svc callback maxiter maxerr err_out L m s = Inr s'"
  shows "\<exists>worst.
      np_max (tolerance_excess maxerr (new_weights svc L (heap s))
                (dvec (heap s) ! old_therm_weights_ref L)) = Some worst \<and>
      dvec (heap s') ! therm_weights_ref L = new_weights svc L (heap s) \<and>
      (if flt worst (Fin 0)
       then dvec (heap s') ! old_therm_weights_ref L = dvec (heap s) ! old_therm_weights_ref L \<and>
            run_loop (loop_body svc callback maxiter maxerr err_out L) (py_range maxiter)
              (initial_state h cbs) = Inr s'
       else dvec (heap s') ! old_therm_weights_ref L = new_weights svc L (heap s) \<and>
            (if fst (observed svc callback maxiter maxerr L m s) = CallbackInterrupt \<or>
                \<not> int (Suc m) < maxiter
             then run_loop (loop_body svc callback maxiter maxerr err_out L) (py_range maxiter)
                    (initial_state h cbs) = Inr s'
             else (Suc m, s') \<in> set (passes_of (loop_body svc callback maxiter maxerr err_out L)
                                       (py_range maxiter) (initial_state h cbs))))"
proof -
  let ?body = "loop_body svc callback maxiter maxerr err_out L"
  let ?s0 = "initial_state h cbs"
  have valid': "\<And>e. te = Some e \<Longrightarrow> e < length (dvec h0)"
    using valid by blast
  have la0: "local_arrays h0 L h"
    using estimate_setup_extends [of te h0 tsc bes css, OF valid'] su by simp
  have P0: "local_arrays h0 L (heap ?s0) \<and> \<not> stop ?s0"
    using la0 by (simp add: initial_state_def)
  have P: "local_arrays h0 L (heap s) \<and> \<not> stop s"
    using P0 pass
    by (rule passes_of_invariant [where P = "\<lambda>s. local_arrays h0 L (heap s) \<and> \<not> stop s"
          and body = ?body, rotated])
       (use loop_body_heap(1) in blast)
  from loop_pass [of h0 L s svc callback maxiter maxerr err_out m s' "[]"] P lb
  obtain worst where
    w: "np_max (tolerance_excess maxerr (new_weights svc L (heap s))
                (dvec (heap s) ! old_therm_weights_ref L)) = Some worst"
    and nw: "dvec (heap s') ! therm_weights_ref L = new_weights svc L (heap s)"
    and c: "flt worst (Fin 0) \<Longrightarrow> stop s' \<and>
         dvec (heap s') ! old_therm_weights_ref L = dvec (heap s) ! old_therm_weights_ref L"
    and n: "\<not> flt worst (Fin 0) \<Longrightarrow>
         dvec (heap s') ! old_therm_weights_ref L = new_weights svc L (heap s) \<and>
         (stop s' \<longleftrightarrow> fst (observed svc callback maxiter maxerr L m s) = CallbackInterrupt)"
    by blast
  have ends: "run_loop ?body (py_range maxiter) ?s0 = Inr s'" if "stop s'"
    using pass lb that by (rule passes_of_ends)
  have "Suc m < nat maxiter \<longleftrightarrow> int (Suc m) < maxiter"
    by linarith
  then have goes: "if int (Suc m) < maxiter
      then (Suc m, s') \<in> set (passes_of ?body (py_range maxiter) ?s0)
      else run_loop ?body (py_range maxiter) ?s0 = Inr s'" if "\<not> stop s'"
    using passes_of_next [OF pass [unfolded py_range_def] lb that]
    unfolding py_range_def by simp
  show ?thesis
  proof (cases "flt worst (Fin 0)")
    case True
    then show ?thesis using w nw c ends by simp
  next
    case False
    show ?thesis
    proof (cases "fst (observed svc callback maxiter maxerr L m s) = CallbackInterrupt")
      case True
      then show ?thesis using w nw n [OF False] False ends by simp
    next
      case ni: False
      then have "\<not> stop s'" using n [OF False] by simp
      then show ?thesis using w nw n [OF False] False ni goes by auto
    qed
  qed
qed

theorem convergence_test_decides_witness:
  "estimate_setup demo_store 0 0 1 None = Inr (demo_locals, demo_heap [Fin 1] [Fin 1]) \<and>
   (0, demo_state0) \<in> set (passes_of
      (loop_body demo_services (None :: (unit, string) callback option) 2 demo_maxerr 0 demo_locals)
      (py_range 2) (initial_state (demo_heap [Fin 1] [Fin 1]) ())) \<and>
   loop_body demo_services (None :: (unit, string) callback option) 2 demo_maxerr 0 demo_locals 0
     demo_state0 = Inr demo_state1 \<and>
   np_max (tolerance_excess demo_maxerr (new_weights demo_services demo_locals (heap demo_state0))
      (dvec (heap demo_state0) ! old_therm_weights_ref demo_locals)) =
     Some (Fin (1 - 2 / 100000000)) \<and>
   dvec (heap demo_state1) ! old_therm_weights_ref demo_locals =
     new_weights demo_services demo_locals (heap demo_state0) \<and>
   (Suc 0, demo_state1) \<in> set (passes_of
      (loop_body demo_services (None :: (unit, string) callback option) 2 demo_maxerr 0 demo_locals)
      (py_range 2) (initial_state (demo_heap [Fin 1] [Fin 1]) ()))"
proof -
  let ?body = "loop_body demo_services (None :: (unit, string) callback option) 2 demo_maxerr 0
      demo_locals"
  have v: "\<forall>e. (None :: ref option) = Some e \<longrightarrow> e < length (dvec demo_store)"
    by simp
  have p: "(0, demo_state0) \<in> set (passes_of ?body (py_range 2)
      (initial_state (demo_heap [Fin 1] [Fin 1]) ()))"
    by (simp add: py_range_2 demo_state0_def)
  have h0: "heap demo_state0 = demo_heap [Fin 1] [Fin 1]"
    by (simp add: demo_state0_def initial_state_def)
  have ex: "np_max (tolerance_excess demo_maxerr (new_weights demo_services demo_locals (heap demo_state0))
      (dvec (heap demo_state0) ! old_therm_weights_ref demo_locals)) =
     Some (Fin (1 - 2 / 100000000))"
    unfolding h0 demo_weights using demo_excess by (simp add: demo_heap_def demo_locals_def)
  have nf: "\<not> flt (Fin (1 - 2 / 100000000)) (Fin 0)"
    by simp
  have ob: "fst (observed demo_services (None :: (unit, string) callback option) 2 demo_maxerr
                 demo_locals 0 demo_state0) \<noteq> CallbackInterrupt"
    by (simp add: observed_def call_callback_def)
  have lt: "int (Suc 0) < 2"
    by simp
  from convergence_test_decides [OF demo_setup v p demo_first_pass] ex nf ob lt
  have "dvec (heap demo_state1) ! old_therm_weights_ref demo_locals =
          new_weights demo_services demo_locals (heap demo_state0) \<and>
        (Suc 0, demo_state1) \<in> set (passes_of ?body (py_range 2)
           (initial_state (demo_heap [Fin 1] [Fin 1]) ()))"
    by (auto split: if_splits)
  then show ?thesis
    using demo_setup p demo_first_pass ex by blast
qed

text \<open>
  Claim C5, as stated, gives the returned thermodynamic free energies as the
  elementwise negative log of the weights of the one update. The array that
  holds this negative log is passed to \<^verbatim>\<open>normalize\<close>, which shifts it in place:
  in the example the weights are \<open>[2]\<close>, and the returned free energies are
  \<open>[-ln 2 - 1]\<close> and not \<open>[-ln 2]\<close>.
\<close>

theorem returned_energies_shifted_counterexample:
  "\<not> isl (estimate demo_services demo_store 0 0 1 2 demo_maxerr None 0 (Some always_interrupt) ()) \<and>
   dvec (res_store (projr (estimate demo_services demo_store 0 0 1 2 demo_maxerr None 0
      (Some always_interrupt) ()))) !
     res_therm_energies (projr (estimate demo_services demo_store 0 0 1 2 demo_maxerr None 0
      (Some always_interrupt) ())) \<noteq>
   map (\<lambda>x. fneg (flog x))
     (dvec (heap (res_loop (projr (estimate demo_services demo_store 0 0 1 2 demo_maxerr None 0
        (Some always_interrupt) ())))) !
      res_therm_weights (projr (estimate demo_services demo_store 0 0 1 2 demo_maxerr None 0
        (Some always_interrupt) ())))"
proof -
  let ?s = "\<lparr>heap = demo_heap [Fin 2] [Fin 2], err_traj = [], err_count = 1, stop = True,
             cb_state = (), passes = 1, errs = [Fin (1 / 2)]\<rparr> :: unit loop_state"
  have hs: "heap ?s = demo_heap [Fin 2] [Fin 2]"
    by simp
  have pos: "(0::real) < 2"
    by simp
  note f = demo_finish [OF pos hs, of 0]
  have w: "dvec (heap ?s) ! res_therm_weights (estimate_finish demo_services 0 1 0 demo_locals ?s) =
             [Fin 2]"
    by (simp add: estimate_finish_simps demo_heap_def demo_locals_def)
  show ?thesis
    unfolding demo_interrupted sum.sel sum.disc estimate_finish_simps(2) f w
    by simp
qed

text \<open>
  Claim C5, amended. Let the lines before the loop raise no error, let there
  be at least one thermodynamic state, and let \<^verbatim>\<open>bias_weight_sequence\<close> pass the
  check of \<^verbatim>\<open>update_therm_weights\<close> (it is C-contiguous).

  If \<open>maxiter\<close> is at least 1 and the callback raises \<^verbatim>\<open>CallbackInterrupt\<close> at
  every call, then \<^verbatim>\<open>estimate\<close> returns after exactly one pass through the loop,
  and the weights that this one update has produced are the final weights.
  The array of thermodynamic free energies is created with the elementwise
  negative log of these weights; it is passed to \<^verbatim>\<open>get_conf_energies\<close>, and
  then, with the two arrays that this call returns, to \<^verbatim>\<open>normalize\<close>; the
  thermodynamic free energies that \<^verbatim>\<open>estimate\<close> returns are this array with the
  contents that \<^verbatim>\<open>normalize\<close> has left in it (\<open>fe\<close> is the array as it is created,
  and \<open>fe'\<close> what \<^verbatim>\<open>normalize\<close> writes to it). The other arguments of the two calls
  are read from the store \<open>u\<close> that the one update has left.

  If the call of the callback in a pass of the loop, whichever it is, raises
  an exception other than \<^verbatim>\<open>CallbackInterrupt\<close>, then \<^verbatim>\<open>estimate\<close> raises this
  exception, in the store that the update of this pass has left.
\<close>

theorem interrupting_callback:
  assumes su: "estimate_setup h0 tsc bes css te = Inr (L, h)"
    and valid: "\<forall>e. te = Some e \<longrightarrow> e < length (dvec h0)"
    and bes: "bes < length (dmat h0)"
    and ne: "dvec h ! therm_weights_ref L \<noteq> []"
    and cc: "c_contiguous (dmat h ! bias_weight_sequence_ref L)"
  shows "(0 < maxiter \<and> (\<forall>cs a. fst (cb cs a) = CallbackInterrupt) \<longrightarrow>
           (\<exists>res. estimate svc h0 tsc bes css maxiter maxerr te err_out (Some cb) cbs = Inr res \<and>
              passes_of (loop_body svc (Some cb) maxiter maxerr err_out L) (py_range maxiter)
                (initial_state h cbs) = [(0, initial_state h cbs)] \<and>
              passes (res_loop res) = 1 \<and>
              dvec (heap (res_loop res)) ! res_therm_weights res = new_weights svc L h \<and>
              dvec (res_store res) ! res_therm_energies res =
                (let u = updated svc L h;
                     fe = map (\<lambda>x. fneg (flog x)) (new_weights svc L h);
                     (ce, bce, scr) = mbar_get_conf_energies svc
                        (dvec u ! log_therm_state_counts_ref L) fe (dmat u ! bes) (ivec u ! css)
                        (dvec u ! scratch_T_ref L) (M_dim L);
                     (scr', fe', ce', bce') = mbar_normalize svc
                        (dvec u ! log_therm_state_counts_ref L) (dmat u ! bes)
                        (dvec u ! scratch_M_ref L) fe ce bce
                 in write_back fe fe'))) \<and>
         (\<forall>m s e. (m, s) \<in> set (passes_of (loop_body svc (Some cb) maxiter maxerr err_out L)
                               (py_range maxiter) (initial_state h cbs)) \<and>
                  fst (observed svc (Some cb) maxiter maxerr L m s) = Raised e \<longrightarrow>
            estimate svc h0 tsc bes css maxiter maxerr te err_out (Some cb) cbs =
              Inl (CallbackError e, updated svc L (heap s)))"
proof -
  let ?body = "loop_body svc (Some cb) maxiter maxerr err_out L"
  let ?s0 = "initial_state h cbs"
  let ?u = "updated svc L h"
  have valid': "\<And>e. te = Some e \<Longrightarrow> e < length (dvec h0)"
    using valid by blast
  have la: "local_arrays h0 L h"
    using estimate_setup_extends [of te h0 tsc bes css, OF valid'] su by simp
  note refs = estimate_setup_refs [of te h0 tsc bes css L h, OF valid' su]
  have h0: "heap ?s0 = h"
    by (simp add: initial_state_def)
  have P0: "local_arrays h0 L (heap ?s0) \<and> dmat (heap ?s0) = dmat h \<and>
            length (dvec (heap ?s0) ! therm_weights_ref L) = length (dvec h ! therm_weights_ref L)"
    using la by (simp add: h0)
  show ?thesis
  proof (intro conjI impI allI)
    assume a: "0 < maxiter \<and> (\<forall>cs a. fst (cb cs a) = CallbackInterrupt)"
    obtain ms where ms: "py_range maxiter = 0 # ms"
      using py_range_pos a by blast
    have o: "fst (observed svc (Some cb) maxiter maxerr L 0 ?s0) = CallbackInterrupt"
      unfolding observed_def call_callback_def using a by simp
    then have "\<And>e. fst (observed svc (Some cb) maxiter maxerr L 0 ?s0) \<noteq> Raised e"
      by simp
    then obtain s1 where s1: "?body 0 ?s0 = Inr s1"
      using loop_body_returns [of svc L ?s0 "Some cb" maxiter maxerr 0 err_out]
        pass_reaches_callback [of h0 L ?s0 svc] la ne cc
      unfolding h0 by blast
    from loop_body_Inr [OF s1] have st: "stop s1" and p: "passes s1 = 1"
      using o by (auto simp: initial_state_def)
    have w1: "dvec (heap s1) ! therm_weights_ref L = new_weights svc L h"
      using loop_body_heap(4) [OF s1, of h0] la by (simp add: h0)
    have la1: "local_arrays h0 L (heap s1)"
      using loop_body_heap(1) [OF s1, of h0] la by (simp add: h0)
    have run: "run_loop ?body (py_range maxiter) ?s0 = Inr s1"
      unfolding ms using s1 st by simp
    have ps: "passes_of ?body (py_range maxiter) ?s0 = [(0, ?s0)]"
      unfolding ms using s1 st by simp
    let ?res = "estimate_finish svc bes css err_out L s1"
    have est: "estimate svc h0 tsc bes css maxiter maxerr te err_out (Some cb) cbs = Inr ?res"
      unfolding estimate_def su using run by simp
    note st1 = pass_store [OF s1, unfolded h0]
    have len: "length (dvec (heap s1)) = length (dvec h)"
      using st1(3) updated_frame(3) [of svc L ?s0] by (simp add: h0)
    have lend: "length (dmat (heap s1)) = length (dmat h)"
      using st1(2) updated_frame(2) [of svc L ?s0] by (simp add: h0)
    have r: "scratch_T_ref L < length (dvec (heap s1))" "scratch_M_ref L < length (dvec (heap s1))"
        "scratch_T_ref L \<noteq> scratch_M_ref L"
        "therm_weights_ref L \<noteq> old_therm_weights_ref L"
        "scratch_T_ref L \<noteq> old_therm_weights_ref L"
        "scratch_M_ref L \<noteq> old_therm_weights_ref L"
      using la1 by (auto simp: local_arrays_def)
    have rl: "log_therm_state_counts_ref L < length (dvec (heap s1))"
      using refs(1) len by simp
    have rb: "bes < length (dmat (heap s1))"
      using refs(4) bes lend by simp
    have eqs: "dvec (heap s1) ! therm_weights_ref L = dvec ?u ! therm_weights_ref L"
        "dvec (heap s1) ! scratch_T_ref L = dvec ?u ! scratch_T_ref L"
        "dvec (heap s1) ! scratch_M_ref L = dvec ?u ! scratch_M_ref L"
        "dvec (heap s1) ! log_therm_state_counts_ref L = dvec ?u ! log_therm_state_counts_ref L"
        "dmat (heap s1) = dmat ?u" "ivec (heap s1) = ivec ?u"
      using st1(1,2) st1(4) r(4,5,6) refs(3) by simp_all
    have ret: "dvec (res_store ?res) ! res_therm_energies ?res =
                (let u = updated svc L h;
                     fe = map (\<lambda>x. fneg (flog x)) (new_weights svc L h);
                     (ce, bce, scr) = mbar_get_conf_energies svc
                        (dvec u ! log_therm_state_counts_ref L) fe (dmat u ! bes) (ivec u ! css)
                        (dvec u ! scratch_T_ref L) (M_dim L);
                     (scr', fe', ce', bce') = mbar_normalize svc
                        (dvec u ! log_therm_state_counts_ref L) (dmat u ! bes)
                        (dvec u ! scratch_M_ref L) fe ce bce
                 in write_back fe fe')"
      using estimate_finish_returned [of L s1 bes svc css err_out, OF r(1,2) rl r(3) refs(2) rb]
      unfolding Let_def eqs new_weights_def .
    show "\<exists>res. estimate svc h0 tsc bes css maxiter maxerr te err_out (Some cb) cbs = Inr res \<and>
              passes_of ?body (py_range maxiter) ?s0 = [(0, ?s0)] \<and>
              passes (res_loop res) = 1 \<and>
              dvec (heap (res_loop res)) ! res_therm_weights res = new_weights svc L h \<and>
              dvec (res_store res) ! res_therm_energies res =
                (let u = updated svc L h;
                     fe = map (\<lambda>x. fneg (flog x)) (new_weights svc L h);
                     (ce, bce, scr) = mbar_get_conf_energies svc
                        (dvec u ! log_therm_state_counts_ref L) fe (dmat u ! bes) (ivec u ! css)
                        (dvec u ! scratch_T_ref L) (M_dim L);
                     (scr', fe', ce', bce') = mbar_normalize svc
                        (dvec u ! log_therm_state_counts_ref L) (dmat u ! bes)
                        (dvec u ! scratch_M_ref L) fe ce bce
                 in write_back fe fe')"
      using est ps p w1 ret by (intro exI [of _ ?res]) (simp add: estimate_finish_simps)
  next
    fix m s e
    assume a: "(m, s) \<in> set (passes_of ?body (py_range maxiter) ?s0) \<and>
               fst (observed svc (Some cb) maxiter maxerr L m s) = Raised e"
    have P: "local_arrays h0 L (heap s) \<and> dmat (heap s) = dmat h \<and>
            length (dvec (heap s) ! therm_weights_ref L) = length (dvec h ! therm_weights_ref L)"
      using P0 a [THEN conjunct1]
      by (rule passes_of_invariant [where body = ?body, rotated]) (erule (1) loop_keeps)
    then have nes: "dvec (heap s) ! therm_weights_ref L \<noteq> []"
      using ne by auto
    have "?body m s = Inl (CallbackError e, updated svc L (heap s))"
      using loop_body_raises [of svc L s "Some cb" maxiter maxerr m e err_out]
        pass_reaches_callback [of h0 L s svc] P nes cc a by simp
    then have "run_loop ?body (py_range maxiter) ?s0 = Inl (CallbackError e, updated svc L (heap s))"
      using a passes_of_raises by blast
    then show "estimate svc h0 tsc bes css maxiter maxerr te err_out (Some cb) cbs =
              Inl (CallbackError e, updated svc L (heap s))"
      unfolding estimate_def su by simp
  qed
qed

theorem interrupting_callback_witness:
  "estimate_setup demo_store 0 0 1 None = Inr (demo_locals, demo_heap [Fin 1] [Fin 1]) \<and>
   (\<exists>res. estimate demo_services demo_store 0 0 1 2 demo_maxerr None 0 (Some always_interrupt) () =
            Inr res \<and>
          passes (res_loop res) = 1 \<and>
          dvec (heap (res_loop res)) ! res_therm_weights res = [Fin 2] \<and>
          dvec (res_store res) ! res_therm_energies res = [Fin (- ln 2 - 1)]) \<and>
   estimate demo_services demo_store 0 0 1 2 demo_maxerr None 0 (Some raise_at_second) 0 =
     Inl (CallbackError ''boom'', demo_heap [Fin 3] [Fin 2])"
proof -
  let ?s1 = "\<lparr>heap = demo_heap [Fin 2] [Fin 2], err_traj = [], err_count = 1, stop = False,
              cb_state = Suc 0, passes = Suc 0, errs = [Fin (1 / 2)]\<rparr> :: nat loop_state"
  have v: "\<forall>e. (None :: ref option) = Some e \<longrightarrow> e < length (dvec demo_store)"
    by simp
  have b: "0 < length (dmat demo_store)"
    by (simp add: demo_store_def)
  have ne: "dvec (demo_heap [Fin 1] [Fin 1]) ! therm_weights_ref demo_locals \<noteq> []"
    by (simp add: demo_heap_def demo_locals_def)
  note th = interrupting_callback [OF demo_setup v b ne demo_c_contiguous]
  have a: "(0::int) < 2 \<and> (\<forall>cs a. fst (always_interrupt cs a) = CallbackInterrupt)"
    by (simp add: always_interrupt_def)
  have ret: "(let u = demo_heap [Fin 2] [Fin 1];
                     fe = map (\<lambda>x. fneg (flog x)) [Fin 2];
                     (ce, bce, scr) = mbar_get_conf_energies demo_services
                        (dvec u ! log_therm_state_counts_ref demo_locals) fe (dmat u ! 0) (ivec u ! 1)
                        (dvec u ! scratch_T_ref demo_locals) (M_dim demo_locals);
                     (scr', fe', ce', bce') = mbar_normalize demo_services
                        (dvec u ! log_therm_state_counts_ref demo_locals) (dmat u ! 0)
                        (dvec u ! scratch_M_ref demo_locals) fe ce bce
                 in write_back fe fe') = [Fin (- ln 2 - 1)]"
    by (simp add: demo_services_def demo_locals_def demo_heap_def spec_normalize_def
          logsumexp_single write_back_def)
  have 1: "\<exists>res. estimate demo_services demo_store 0 0 1 2 demo_maxerr None 0 (Some always_interrupt) () =
            Inr res \<and>
          passes (res_loop res) = 1 \<and>
          dvec (heap (res_loop res)) ! res_therm_weights res = [Fin 2] \<and>
          dvec (res_store res) ! res_therm_energies res = [Fin (- ln 2 - 1)]"
    using th [of 2 always_interrupt demo_services demo_maxerr 0 "()", THEN conjunct1, rule_format, OF a]
      ret
    unfolding demo_weights demo_updated
    by auto
  have p: "(1, ?s1) \<in> set (passes_of
       (loop_body demo_services (Some raise_at_second) 2 demo_maxerr 0 demo_locals) (py_range 2)
       (initial_state (demo_heap [Fin 1] [Fin 1]) 0))"
    unfolding py_range_2 initial_state_def demo_maxerr_def
    by (simp add: demo_pass call_callback_def raise_at_second_def)
  have o: "fst (observed demo_services (Some raise_at_second) 2 demo_maxerr demo_locals 1 ?s1) =
             Raised ''boom''"
    by (simp add: observed_def call_callback_def raise_at_second_def)
  have 2: "estimate demo_services demo_store 0 0 1 2 demo_maxerr None 0 (Some raise_at_second) 0 =
     Inl (CallbackError ''boom'', demo_heap [Fin 3] [Fin 2])"
    using th [of 2 raise_at_second demo_services demo_maxerr 0 0, THEN conjunct2, rule_format,
        of 1 ?s1 "''boom''"] p o
    by (simp add: demo_updated)
  show ?thesis
    using demo_setup 1 2 by blast
qed

text \<open>
  Claim C6. Let \<^verbatim>\<open>estimate\<close> return, let \<open>ps\<close> be the passes that its loop has
  made, in order, and \<open>errors\<close> the value of \<^verbatim>\<open>err\<close> of each of them (the maximum
  relative change of the weights in that pass). Every pass has been
  completed. When \<open>err_out\<close> is 0, the returned trajectory is \<^verbatim>\<open>None\<close>, and the
  list \<^verbatim>\<open>err_traj\<close> is empty at the start of every pass and at the end of the
  loop. Otherwise the returned trajectory holds every \<open>err_out\<close>-th element of
  \<open>errors\<close>, in order: for a positive \<open>err_out\<close> it has \<open>length ps div err_out\<close>
  elements, and its element \<open>i\<close> (counted from 0) is the value of \<^verbatim>\<open>err\<close> of the
  pass number \<open>err_out * (i + 1)\<close> (counted from 1); for a negative \<open>err_out\<close> it is
  empty. For a positive \<open>err_out\<close> the counter is, at the start of the pass
  for the index \<open>m\<close>, the number \<open>m mod err_out\<close> of passes since the last value was
  recorded, and likewise at the end of the loop.
\<close>

theorem estimate_err_traj:
  assumes su: "estimate_setup h0 tsc bes css te = Inr (L, h)"
    and ret: "estimate svc h0 tsc bes css maxiter maxerr te err_out callback cbs = Inr res"
  shows "let ps = passes_of (loop_body svc callback maxiter maxerr err_out L) (py_range maxiter)
                    (initial_state h cbs);
             errors = map (\<lambda>(m, s). pass_err svc L s) ps;
             k = nat err_out
         in (\<forall>(m, s) \<in> set ps. \<exists>s'. loop_body svc callback maxiter maxerr err_out L m s = Inr s') \<and>
            (err_out = 0 \<longrightarrow>
               res_err_traj res = None \<and> err_traj (res_loop res) = [] \<and>
               (\<forall>(m, s) \<in> set ps. err_traj s = [])) \<and>
            (err_out \<noteq> 0 \<longrightarrow>
               (\<exists>traj. res_err_traj res = Some traj \<and>
                  map Some traj = every_nth k errors \<and>
                  length traj = (if 0 < err_out then length ps div k else 0) \<and>
                  (\<forall>i<length traj. errors ! (k * Suc i - 1) = Some (traj ! i)))) \<and>
            (0 < err_out \<longrightarrow>
               err_count (res_loop res) = int (length ps mod k) \<and>
               (\<forall>(m, s) \<in> set ps. err_count s = int (m mod k)))"
proof -
  let ?body = "loop_body svc callback maxiter maxerr err_out L"
  let ?s0 = "initial_state h cbs"
  let ?ps = "passes_of ?body (py_range maxiter) ?s0"
  let ?errors = "map (\<lambda>(m, s). pass_err svc L s) ?ps"
  let ?k = "nat err_out"
  from estimate_Inr [OF ret] su obtain sf where
    run: "run_loop ?body (py_range maxiter) ?s0 = Inr sf"
    and res: "res = estimate_finish svc bes css err_out L sf"
    by auto
  have rec0: "recorded err_out ?s0"
    by (simp add: recorded_def every_nth_Nil initial_state_def)
  have rec: "recorded err_out sf"
    using rec0 run by (rule run_loop_invariant [rotated]) (rule recorded_step)
  have recp: "recorded err_out s" if "(m, s) \<in> set ?ps" for m s
    using rec0 that by (rule passes_of_invariant [rotated]) (rule recorded_step)
  have idx: "passes s = m" if "(m, s) \<in> set ?ps" for m s
    using passes_of_index [OF that [unfolded py_range_def]] by (simp add: initial_state_def)
  from run_loop_errs [OF run] have
    errs: "map Some (errs sf) = ?errors" and n: "passes sf = length ?ps"
    by (simp_all add: initial_state_def)
  have len: "length (errs sf) = length ?ps"
    using rec n by (simp add: recorded_def)
  have traj: "map Some (err_traj sf) = every_nth ?k ?errors"
  proof -
    have "map Some (err_traj sf) = every_nth ?k (map Some (errs sf))"
      using rec by (simp add: recorded_def every_nth_map)
    then show ?thesis by (simp only: errs)
  qed
  have completed: "\<forall>(m, s) \<in> set ?ps. \<exists>s'. ?body m s = Inr s'"
    using passes_of_completed [OF _ run] by blast
  have zero: "res_err_traj res = None \<and> err_traj (res_loop res) = [] \<and>
               (\<forall>(m, s) \<in> set ?ps. err_traj s = [])" if "err_out = 0"
  proof -
    have z1: "err_traj sf = []"
      using rec that by (simp add: recorded_def every_nth_def)
    have z2: "err_traj s = []" if "(m, s) \<in> set ?ps" for m s
      using recp [OF that] \<open>err_out = 0\<close> by (simp add: recorded_def every_nth_def)
    show ?thesis
      using z1 z2 that unfolding res estimate_finish_simps by auto
  qed
  have nonzero: "\<exists>traj. res_err_traj res = Some traj \<and>
                  map Some traj = every_nth ?k ?errors \<and>
                  length traj = (if 0 < err_out then length ?ps div ?k else 0) \<and>
                  (\<forall>i<length traj. ?errors ! (?k * Suc i - 1) = Some (traj ! i))" if "err_out \<noteq> 0"
  proof -
    have t: "err_traj sf = every_nth ?k (errs sf)"
      using rec by (simp add: recorded_def)
    have l: "length (err_traj sf) = (if 0 < err_out then length ?ps div ?k else 0)"
    proof (cases "0 < err_out")
      case True
      then show ?thesis unfolding t using len by (simp add: every_nth_length)
    next
      case False
      then show ?thesis unfolding t by (simp add: every_nth_def)
    qed
    have i: "?errors ! (?k * Suc i - 1) = Some (err_traj sf ! i)" if "i < length (err_traj sf)" for i
    proof -
      have pos: "0 < err_out" using that l by (auto split: if_splits)
      then have k: "0 < ?k" by simp
      have il: "i < length (errs sf) div ?k"
        using that l pos len by simp
      then have "Suc i \<le> length (errs sf) div ?k" by simp
      then have "?k * Suc i \<le> ?k * (length (errs sf) div ?k)" by (rule mult_le_mono2)
      also have "\<dots> \<le> length (errs sf)" by simp
      finally have "?k * Suc i - 1 < length (errs sf)" using k by (cases ?k) simp_all
      then have "map Some (errs sf) ! (?k * Suc i - 1) = Some (errs sf ! (?k * Suc i - 1))"
        by simp
      then show ?thesis
        unfolding errs [symmetric] t using every_nth_nth [OF k il] by simp
    qed
    show ?thesis
      using that traj l i unfolding res estimate_finish_simps by auto
  qed
  have counter: "err_count (res_loop res) = int (length ?ps mod ?k) \<and>
               (\<forall>(m, s) \<in> set ?ps. err_count s = int (m mod ?k))" if "0 < err_out"
  proof -
    have c1: "err_count sf = int (length ?ps mod ?k)"
      using rec that n by (simp add: recorded_def)
    have c2: "err_count s = int (m mod ?k)" if "(m, s) \<in> set ?ps" for m s
      using recp [OF that] idx [OF that] \<open>0 < err_out\<close> by (simp add: recorded_def)
    show ?thesis
      using c1 c2 unfolding res estimate_finish_simps by auto
  qed
  show ?thesis
    unfolding Let_def using completed zero nonzero counter by blast
qed

theorem estimate_err_traj_witness:
  "map (\<lambda>(m, s). pass_err demo_services demo_locals s)
     (passes_of (loop_body demo_services (None :: (unit, string) callback option) 2 demo_maxerr 2
        demo_locals) (py_range 2) (initial_state (demo_heap [Fin 1] [Fin 1]) ())) =
     [Some (Fin (1 / 2)), Some (Fin (1 / 3))] \<and>
   res_err_traj (projr (estimate demo_services demo_store 0 0 1 2 demo_maxerr None 2
      (None :: (unit, string) callback option) ())) = Some [Fin (1 / 3)] \<and>
   res_err_traj (projr (estimate demo_services demo_store 0 0 1 2 demo_maxerr None 0
      (Some always_interrupt) ())) = None"
proof -
  have e2: "every_nth 2 [Some (Fin (1 / 2)), Some (Fin (1 / 3))] = [Some (Fin (1 / 3))]"
    by (simp add: every_nth_def upt_rec)
  have n2: "nat 2 = 2"
    by simp
  show ?thesis
    using estimate_err_traj [OF demo_setup demo_two_passes]
      estimate_err_traj [OF demo_setup demo_interrupted]
    unfolding demo_two_passes demo_interrupted demo_passes Let_def n2
    by (auto simp: demo_pass_err e2)
qed

text \<open>
  Claim C10. \<^verbatim>\<open>estimate\<close> changes no array that its caller holds: in the store
  after the call, whether it returns or raises, every array of the store
  before the call has the contents it had, among them \<^verbatim>\<open>therm_state_counts\<close>,
  \<^verbatim>\<open>conf_state_sequence\<close>, \<^verbatim>\<open>bias_energy_sequence\<close> and a supplied
  \<^verbatim>\<open>therm_energies\<close>; and the array of thermodynamic free energies that is
  returned is a new array. (The collaborators write the arrays that their
  interfaces name as outputs; the arrays of the caller are not among the
  arrays that the driver passes for them.)
\<close>

theorem estimate_leaves_inputs:
  assumes "therm_state_counts < length (ivec h0)" and "conf_state_sequence < length (ivec h0)"
    and "bias_energy_sequence < length (dmat h0)"
    and "\<forall>e. therm_energies = Some e \<longrightarrow> e < length (dvec h0)"
  shows "extends h0 (final_store (estimate svc h0 therm_state_counts bias_energy_sequence
             conf_state_sequence maxiter maxerr therm_energies err_out callback cbs)) \<and>
         ivec (final_store (estimate svc h0 therm_state_counts bias_energy_sequence
             conf_state_sequence maxiter maxerr therm_energies err_out callback cbs)) !
           therm_state_counts = ivec h0 ! therm_state_counts \<and>
         ivec (final_store (estimate svc h0 therm_state_counts bias_energy_sequence
             conf_state_sequence maxiter maxerr therm_energies err_out callback cbs)) !
           conf_state_sequence = ivec h0 ! conf_state_sequence \<and>
         dmat (final_store (estimate svc h0 therm_state_counts bias_energy_sequence
             conf_state_sequence maxiter maxerr therm_energies err_out callback cbs)) !
           bias_energy_sequence = dmat h0 ! bias_energy_sequence \<and>
         (\<forall>e. therm_energies = Some e \<longrightarrow>
            dvec (final_store (estimate svc h0 therm_state_counts bias_energy_sequence
              conf_state_sequence maxiter maxerr therm_energies err_out callback cbs)) ! e =
            dvec h0 ! e) \<and>
         (\<forall>res. estimate svc h0 therm_state_counts bias_energy_sequence
              conf_state_sequence maxiter maxerr therm_energies err_out callback cbs = Inr res \<longrightarrow>
            length (dvec h0) \<le> res_therm_energies res)"
proof -
  have valid: "\<And>e. therm_energies = Some e \<Longrightarrow> e < length (dvec h0)"
    using assms(4) by blast
  note ex = estimate_extends [of therm_energies h0 svc therm_state_counts bias_energy_sequence
      conf_state_sequence maxiter maxerr err_out callback cbs, OF valid]
  show ?thesis
    using ex(1) ex(2) extends_nth [OF ex(1)] assms by blast
qed

theorem estimate_leaves_inputs_witness:
  "ivec (final_store (estimate demo_services demo_store 0 0 1 2 demo_maxerr (Some 0) 0
      (None :: (unit, string) callback option) ())) ! 0 = [1] \<and>
   ivec (final_store (estimate demo_services demo_store 0 0 1 2 demo_maxerr (Some 0) 0
      (None :: (unit, string) callback option) ())) ! 1 = [0] \<and>
   dmat (final_store (estimate demo_services demo_store 0 0 1 2 demo_maxerr (Some 0) 0
      (None :: (unit, string) callback option) ())) ! 0 =
     \<lparr>shape0 = 1, shape1 = 1, entries = [Fin 0], axes = Row_major, contiguous = True\<rparr> \<and>
   dvec (final_store (estimate demo_services demo_store 0 0 1 2 demo_maxerr (Some 0) 0
      (None :: (unit, string) callback option) ())) ! 0 = [Fin 0]"
proof -
  have v: "(0::nat) < length (ivec demo_store)" "(1::nat) < length (ivec demo_store)"
    "(0::nat) < length (dmat demo_store)"
    "\<forall>e. Some (0::nat) = Some e \<longrightarrow> e < length (dvec demo_store)"
    by (simp_all add: demo_store_def)
  show ?thesis
    using estimate_leaves_inputs [OF v, of demo_services 2 demo_maxerr 0
        "None :: (unit, string) callback option" "()"]
    by (simp add: demo_store_def)
qed

end
